theory Spec2Isabelle
  imports Main "HOL-Library.Word"
begin

section \<open>Errors and emitted values\<close>

text \<open>
  \<^verbatim>\<open>cmdkit.Error\<close> is the structured error of the imported package go-ipfs-cmdkit: a
  message and a numeric kind. Its zero kind is the one a composite literal without a
  \<^verbatim>\<open>Code\<close> gets.
\<close>

record cmdkit_Error =
  Message :: string
  Code :: int

text \<open>
  The values of Go's \<^verbatim>\<open>error\<close> interface that the stream can meet. A
  \<^verbatim>\<open>cmdkit.Error\<close> held by value and one held by pointer are different dynamic types
  (the pointer is modelled by the struct it points to); \<open>ErrorString\<close> is any other,
  unstructured error, given by its message.
\<close>

datatype error =
    EOF
  | ErrClosedEmitter
  | ErrClosingClosedEmitter
  | Canceled
  | DeadlineExceeded
  | CmdkitErrorV cmdkit_Error
  | CmdkitErrorP cmdkit_Error
  | ErrorString string

text \<open>
  Modelled from the spec: the declarations of \<^verbatim>\<open>ErrClosedEmitter\<close> and
  \<^verbatim>\<open>ErrClosingClosedEmitter\<close> are not among the sources; the spec calls them the
  "closed emitter" and the "double close" error, and these words stand for their
  messages. The other messages are those of the Go standard library.
\<close>

fun error_Error :: "error \<Rightarrow> string" where
  "error_Error EOF = ''EOF''"
| "error_Error ErrClosedEmitter = ''closed emitter''"
| "error_Error ErrClosingClosedEmitter = ''double close''"
| "error_Error Canceled = ''context canceled''"
| "error_Error DeadlineExceeded = ''context deadline exceeded''"
| "error_Error (CmdkitErrorV e) = Message e"
| "error_Error (CmdkitErrorP e) = Message e"
| "error_Error (ErrorString m) = m"

text \<open>
  Modelled from the spec: the type \<^verbatim>\<open>Single\<close> is declared outside the sources; the
  spec describes it as the wrapper meaning "exactly one value, then auto-close", and
  \<^verbatim>\<open>Next\<close> reads its field \<^verbatim>\<open>Value\<close>.

  A value of \<^verbatim>\<open>interface{}\<close> as \<^verbatim>\<open>Emit\<close> and \<^verbatim>\<open>Next\<close> tell them apart: nil, an
  application value, the single-value marker around a value, an error, or a channel of
  values (\<^verbatim>\<open>chan interface{}\<close> and \<^verbatim>\<open><-chan interface{}\<close> alike).
\<close>

datatype 'a iface =
    NilV
  | Val 'a
  | Single "'a iface"
  | ErrorV error
  | ChanV

fun is_chan :: "'a iface \<Rightarrow> bool" where
  "is_chan ChanV = True"
| "is_chan _ = False"

fun is_error :: "'a iface \<Rightarrow> bool" where
  "is_error (ErrorV e) = True"
| "is_error _ = False"

datatype panic =
    AssertionFailed
  | NilDereference
  | CloseOfClosedChannel
  | SendOnClosedChannel

text \<open>
  Modelled from the spec: \<^verbatim>\<open>debug.AssertNotError\<close> is not among the sources. The
  comment at its call in \<^verbatim>\<open>Emit\<close> and the spec say that it panics when the emitted
  value is a raw error value, and does nothing otherwise.
\<close>

definition AssertNotError :: "'a iface \<Rightarrow> panic option" where
  "AssertNotError v = (if is_error v then Some AssertionFailed else None)"

section \<open>The stream\<close>

text \<open>
  A channel of the stream carries no buffer (all three are made without capacity), so
  its state is whether it has been closed. \<^verbatim>\<open>close\<close> of a closed channel panics.
\<close>

datatype chan = ChanOpen | ChanClosed

fun close_chan :: "chan \<Rightarrow> chan option" where
  "close_chan ChanOpen = Some ChanClosed"
| "close_chan ChanClosed = None"

text \<open>
  The idiom \<^verbatim>\<open>select { case <-c: default: close(c) }\<close>: a receive from a closed
  channel is ready, so the channel is closed only when it is still open.
\<close>

fun unblock :: "chan \<Rightarrow> chan" where
  "unblock ChanClosed = ChanClosed"
| "unblock ChanOpen = ChanClosed"

text \<open>
  A \<^verbatim>\<open>context.Context\<close>: \<^verbatim>\<open>Err()\<close> is nil until \<^verbatim>\<open>Done()\<close> is closed. Of the
  request only its \<^verbatim>\<open>Context\<close> field is read here; the field may be nil.
\<close>

datatype ctx = Ctx (Err: "error option")

definition Background :: ctx where
  "Background = Ctx None"

record Request =
  Context :: "ctx option"

text \<open>
  \<^verbatim>\<open>chanStream\<close>. The mutex \<^verbatim>\<open>wl\<close> is held exactly while a call of \<^verbatim>\<open>Emit\<close> is
  between its \<^verbatim>\<open>Lock\<close> and its return; that is the \<open>emitter\<close> component of the
  system state below. \<open>length_u64\<close> is the field \<^verbatim>\<open>length\<close>.
\<close>

record chanStream =
  req :: Request
  ch :: chan
  closed :: bool
  closeCh :: chan
  err :: "error option"
  waitLen :: chan
  length_u64 :: "64 word"

definition NewChanResponsePair :: "Request \<Rightarrow> chanStream" where
  "NewChanResponsePair rq =
     \<lparr>req = rq, ch = ChanOpen, closed = False, closeCh = ChanOpen, err = None,
      waitLen = ChanOpen, length_u64 = 0\<rparr>"

subsection \<open>The calls that do not wait\<close>

text \<open>\<^verbatim>\<open>chanResponse.Error\<close>: a \<^verbatim>\<open>*cmdkit.Error\<close>, nil as \<open>None\<close>.\<close>

definition Error :: "chanStream \<Rightarrow> cmdkit_Error option" where
  "Error r =
     (case closeCh r of
        ChanClosed \<Rightarrow>
          (case err r of
             None \<Rightarrow> None
           | Some EOF \<Rightarrow> None
           | Some (CmdkitErrorP e) \<Rightarrow> Some e
           | Some x \<Rightarrow> Some \<lparr>Message = error_Error x, Code = 0\<rparr>)
      | ChanOpen \<Rightarrow> None)"

text \<open>
  \<^verbatim>\<open>chanResponse.Length\<close>: the receive from \<^verbatim>\<open>waitLen\<close> returns only once the
  channel is closed; \<open>None\<close> is the call still waiting.
\<close>

definition Length :: "chanStream \<Rightarrow> 64 word option" where
  "Length r = (case waitLen r of ChanOpen \<Rightarrow> None | ChanClosed \<Rightarrow> Some (length_u64 r))"

text \<open>\<^verbatim>\<open>chanResponseEmitter.SetLength\<close>, once it holds the mutex.\<close>

definition SetLength :: "64 word \<Rightarrow> chanStream \<Rightarrow> chanStream" where
  "SetLength l re =
     (case waitLen re of ChanClosed \<Rightarrow> re | ChanOpen \<Rightarrow> re\<lparr>length_u64 := l\<rparr>)"

text \<open>
  \<^verbatim>\<open>closeWithError\<close>. The panic of \<^verbatim>\<open>close(re.ch)\<close> on a closed channel leaves the
  two assignments before it in place.
\<close>

definition closeWithError :: "error option \<Rightarrow> chanStream \<Rightarrow> panic option \<times> chanStream" where
  "closeWithError e0 re =
     (let s1 = re\<lparr>closed := True\<rparr>;
          e1 = (case e0 of None \<Rightarrow> EOF | Some e \<Rightarrow> e);
          e2 = (case e1 of CmdkitErrorV e \<Rightarrow> CmdkitErrorP e | _ \<Rightarrow> e1);
          s2 = s1\<lparr>err := Some e2\<rparr>
      in case close_chan (ch s2) of
           None \<Rightarrow> (Some CloseOfClosedChannel, s2)
         | Some c \<Rightarrow>
             (None, s2\<lparr>ch := c, waitLen := unblock (waitLen s2),
                        closeCh := unblock (closeCh s2)\<rparr>))"

text \<open>
  \<^verbatim>\<open>CloseWithError\<close>, once it holds the mutex: the error it returns, or the panic
  of \<^verbatim>\<open>closeWithError\<close>.
\<close>

definition CloseWithError :: "error option \<Rightarrow> chanStream \<Rightarrow> (panic + error option) \<times> chanStream" where
  "CloseWithError e re =
     (if closed re then (Inr (Some ErrClosingClosedEmitter), re)
      else case closeWithError e re of
             (Some p, re') \<Rightarrow> (Inl p, re')
           | (None, re') \<Rightarrow> (Inr None, re'))"

section \<open>Producer and consumer\<close>

text \<open>
  \<^verbatim>\<open>Emit\<close> and \<^verbatim>\<open>Next\<close> wait in a \<^verbatim>\<open>select\<close>, and the channel \<^verbatim>\<open>ch\<close> has no
  buffer: a value passes from the one to the other only while both wait. The system
  state therefore holds, beside the stream, where the call of \<^verbatim>\<open>Emit\<close> that owns the
  mutex stands, and whether a call of \<^verbatim>\<open>Next\<close> waits in its \<^verbatim>\<open>select\<close>.

  The producer's calls may come from any goroutine: a call of \<^verbatim>\<open>Emit\<close>,
  \<^verbatim>\<open>CloseWithError\<close> or \<^verbatim>\<open>SetLength\<close> starts only while no \<^verbatim>\<open>Emit\<close> holds the
  mutex. One call of \<^verbatim>\<open>Next\<close> at a time is modelled, the one consumer of a stream;
  \<^verbatim>\<open>Length\<close> and \<^verbatim>\<open>Error\<close> may be called at any time. Which \<^verbatim>\<open>select\<close> case
  fires when several are ready is not decided by the program, nor is the order of the
  two goroutines: a run is given by its schedule, and the theorems below hold for
  every schedule.

  A call that waits in a \<^verbatim>\<open>select\<close> is woken by the first of its cases that becomes
  ready, and leaves by that case. So when the context is cancelled, a \<^verbatim>\<open>Next\<close> that
  waits on the open channel is woken for the case \<^verbatim>\<open><-ctx.Done()\<close>: it is \<open>Woken\<close>,
  and a later send or close does not reach it. A value passes only to a partner that
  waits in its \<^verbatim>\<open>select\<close>, and a call that enters its \<^verbatim>\<open>select\<close> after the
  cancellation does not wait there, it finds \<^verbatim>\<open>ctx.Done()\<close> ready. So the communication
  is a step only while the context is not done, and an \<^verbatim>\<open>Emit\<close> that waits when the
  context is cancelled leaves by \<^verbatim>\<open><-ctx.Done()\<close>. (\<^verbatim>\<open>Emit\<close> and \<^verbatim>\<open>Next\<close> select on
  the same context, the one of the request.)
\<close>

datatype 'a emitter =
    NoEmit
  | Sending "'a iface"
  | Sent "'a iface"

datatype receiver = NoNext | Receiving | Woken

record 'a sys =
  stream :: chanStream
  emitter :: "'a emitter"
  receiver :: receiver

definition NewSys :: "Request \<Rightarrow> 'a sys" where
  "NewSys rq = \<lparr>stream = NewChanResponsePair rq, emitter = NoEmit, receiver = NoNext\<rparr>"

text \<open>
  What a run shows: the return, or the panic, of every call. \<open>EmitChanCall\<close> marks a
  call of \<^verbatim>\<open>Emit\<close> that hands a channel to \<^verbatim>\<open>EmitChan\<close>, which is outside the
  sources and outside this model.
\<close>

datatype 'a event =
    EmitRet "'a iface" "error option"
  | EmitPanic "'a iface" panic
  | EmitChanCall "'a iface"
  | CloseRet "error option" "error option"
  | ClosePanic "error option" panic
  | SetLengthRet "64 word"
  | NextRet "'a iface" "error option"
  | NextNilRet "'a iface" "error option"
  | LengthRet "64 word"
  | ErrorRet "cmdkit_Error option"

text \<open>
  The steps of a run. A call is one step when it cannot wait after its first effect;
  \<^verbatim>\<open>Emit\<close> and \<^verbatim>\<open>Next\<close> are a call step followed by the step of the \<^verbatim>\<open>select\<close>
  case that fires. \<open>SendRecv\<close> is the communication on \<^verbatim>\<open>ch\<close>, the send case of
  \<^verbatim>\<open>Emit\<close> together with the receive case of \<^verbatim>\<open>Next\<close>.
\<close>

datatype 'a action =
    CallEmit "'a iface"
  | SendRecv
  | EmitReturn
  | EmitCtxDone
  | CallClose
  | CallCloseWithError "error option"
  | CallSetLength "64 word"
  | CallNext
  | CallNextNil
  | NextChClosed
  | NextCtxDone
  | CallLength
  | CallError
  | CancelCtx error

text \<open>A step gives the events it shows and the next state; \<open>None\<close> is a step that
  cannot be taken in this state (the call waits).\<close>

type_synonym 'a step = "'a sys \<Rightarrow> ('a event list \<times> 'a sys) option"

text \<open>
  \<^verbatim>\<open>Emit\<close> from its call to its \<^verbatim>\<open>select\<close>. The operands of the \<^verbatim>\<open>select\<close> are
  evaluated on entering it, so \<^verbatim>\<open>ctx.Done()\<close> on a nil \<^verbatim>\<open>Context\<close> panics there. The
  deferred \<^verbatim>\<open>Unlock\<close> frees the mutex on every return and on a panic.
\<close>

definition Emit :: "'a iface \<Rightarrow> 'a step" where
  "Emit v sy =
     (if is_chan v then Some ([EmitChanCall v], sy)
      else case emitter sy of
        Sending _ \<Rightarrow> None
      | Sent _ \<Rightarrow> None
      | NoEmit \<Rightarrow>
         (case AssertNotError v of
            Some p \<Rightarrow> Some ([EmitPanic v p], sy)
          | None \<Rightarrow>
             (let re = (stream sy)\<lparr>waitLen := unblock (waitLen (stream sy))\<rparr> in
              if closed re then Some ([EmitRet v (Some ErrClosedEmitter)], sy\<lparr>stream := re\<rparr>)
              else case Context (req re) of
                     None \<Rightarrow> Some ([EmitPanic v NilDereference], sy\<lparr>stream := re\<rparr>)
                   | Some c \<Rightarrow> Some ([], sy\<lparr>stream := re, emitter := Sending v\<rparr>))))"

text \<open>The type switch of \<^verbatim>\<open>Next\<close> on the value it received.\<close>

fun unwrap :: "'a iface \<Rightarrow> 'a iface" where
  "unwrap (Single x) = x"
| "unwrap v = v"

text \<open>
  The communication: \<^verbatim>\<open>re.ch <- v\<close> in \<^verbatim>\<open>Emit\<close> with \<^verbatim>\<open>v, ok := <-r.ch\<close> in
  \<^verbatim>\<open>Next\<close>, which returns at once. It needs a receiver that waits, and a context
  that is not done (a receiver that waited when the context was cancelled is woken for
  that case; one that comes later finds the context done and no sender waiting). A send
  on a closed channel panics, with or without a receiver.
\<close>

definition send_recv :: "'a step" where
  "send_recv sy =
     (case emitter sy of
        Sending v \<Rightarrow>
          (case ch (stream sy) of
             ChanClosed \<Rightarrow> Some ([EmitPanic v SendOnClosedChannel], sy\<lparr>emitter := NoEmit\<rparr>)
           | ChanOpen \<Rightarrow>
               (case Context (req (stream sy)) of
                  Some (Ctx (Some e)) \<Rightarrow> None
                | _ \<Rightarrow>
                   (case receiver sy of
                      Receiving \<Rightarrow>
                        Some ([NextRet (unwrap v) None], sy\<lparr>emitter := Sent v, receiver := NoNext\<rparr>)
                    | _ \<Rightarrow> None)))
      | _ \<Rightarrow> None)"

text \<open>\<^verbatim>\<open>Emit\<close> after its send: the close after a single value, and the return.\<close>

definition emit_return :: "'a step" where
  "emit_return sy =
     (case emitter sy of
        Sent v \<Rightarrow>
          (case v of
             Single x \<Rightarrow>
               (case closeWithError None (stream sy) of
                  (Some p, re) \<Rightarrow> Some ([EmitPanic v p], sy\<lparr>stream := re, emitter := NoEmit\<rparr>)
                | (None, re) \<Rightarrow> Some ([EmitRet v None], sy\<lparr>stream := re, emitter := NoEmit\<rparr>))
           | _ \<Rightarrow> Some ([EmitRet v None], sy\<lparr>emitter := NoEmit\<rparr>))
      | _ \<Rightarrow> None)"

text \<open>The case \<^verbatim>\<open><-ctx.Done()\<close> of \<^verbatim>\<open>Emit\<close>.\<close>

definition emit_ctx_done :: "'a step" where
  "emit_ctx_done sy =
     (case emitter sy of
        Sending v \<Rightarrow>
          (case Context (req (stream sy)) of
             Some (Ctx (Some e)) \<Rightarrow> Some ([EmitRet v (Some e)], sy\<lparr>emitter := NoEmit\<rparr>)
           | _ \<Rightarrow> None)
      | _ \<Rightarrow> None)"

text \<open>\<^verbatim>\<open>CloseWithError\<close> and \<^verbatim>\<open>SetLength\<close> wait for the mutex, then run to their end.\<close>

definition close_call :: "error option \<Rightarrow> 'a step" where
  "close_call e sy =
     (case emitter sy of
        NoEmit \<Rightarrow>
          (case CloseWithError e (stream sy) of
             (Inl p, re) \<Rightarrow> Some ([ClosePanic e p], sy\<lparr>stream := re\<rparr>)
           | (Inr r, re) \<Rightarrow> Some ([CloseRet e r], sy\<lparr>stream := re\<rparr>))
      | _ \<Rightarrow> None)"

definition set_length_call :: "64 word \<Rightarrow> 'a step" where
  "set_length_call l sy =
     (case emitter sy of
        NoEmit \<Rightarrow> Some ([SetLengthRet l], sy\<lparr>stream := SetLength l (stream sy)\<rparr>)
      | _ \<Rightarrow> None)"

text \<open>
  \<^verbatim>\<open>Next\<close>: on a nil response it returns the end of the stream at once; otherwise it
  selects on \<^verbatim>\<open>ch\<close> and on the request's context, or on the background context when
  the request has none. A call that the cancellation has woken leaves by
  \<^verbatim>\<open><-ctx.Done()\<close> only. Any other call leaves by a case that is ready, the closed
  channel or the done context: the model does not record whether the call waited
  already when the channel was closed, so after a close and a cancellation it may
  leave by either case.
\<close>

definition Next_nil :: "'a event" where
  "Next_nil = NextNilRet NilV (Some EOF)"

definition Next_ctx :: "chanStream \<Rightarrow> ctx" where
  "Next_ctx r = (case Context (req r) of Some rctx \<Rightarrow> rctx | None \<Rightarrow> Background)"

definition next_call :: "'a step" where
  "next_call sy =
     (case receiver sy of
        NoNext \<Rightarrow> Some ([], sy\<lparr>receiver := Receiving\<rparr>)
      | _ \<Rightarrow> None)"

definition next_ch_closed :: "'a step" where
  "next_ch_closed sy =
     (case receiver sy of
        Receiving \<Rightarrow>
          (case ch (stream sy) of
             ChanClosed \<Rightarrow> Some ([NextRet NilV (err (stream sy))], sy\<lparr>receiver := NoNext\<rparr>)
           | ChanOpen \<Rightarrow> None)
      | _ \<Rightarrow> None)"

definition next_ctx_done :: "'a step" where
  "next_ctx_done sy =
     (case receiver sy of
        NoNext \<Rightarrow> None
      | _ \<Rightarrow>
          (case Err (Next_ctx (stream sy)) of
             Some e \<Rightarrow> Some ([NextRet NilV (Some e)], sy\<lparr>receiver := NoNext\<rparr>)
           | None \<Rightarrow> None))"

definition length_call :: "'a step" where
  "length_call sy =
     (case Length (stream sy) of
        Some l \<Rightarrow> Some ([LengthRet l], sy)
      | None \<Rightarrow> None)"

definition error_call :: "'a step" where
  "error_call sy = Some ([ErrorRet (Error (stream sy))], sy)"

text \<open>
  The environment cancels the request's context (or its deadline passes): the first
  cancellation sets \<^verbatim>\<open>Err()\<close> and closes the channel \<^verbatim>\<open>Done()\<close>, which wakes a
  \<^verbatim>\<open>Next\<close> that waits on the open channel; a later one changes nothing.
\<close>

fun wake :: "chan \<Rightarrow> receiver \<Rightarrow> receiver" where
  "wake ChanOpen Receiving = Woken"
| "wake c r = r"

definition cancel_ctx :: "error \<Rightarrow> 'a step" where
  "cancel_ctx e sy =
     (case Context (req (stream sy)) of
        None \<Rightarrow> None
      | Some (Ctx (Some _)) \<Rightarrow> Some ([], sy)
      | Some (Ctx None) \<Rightarrow>
          Some ([], sy\<lparr>stream := (stream sy)\<lparr>req := (req (stream sy))\<lparr>Context := Some (Ctx (Some e))\<rparr>\<rparr>,
                       receiver := wake (ch (stream sy)) (receiver sy)\<rparr>))"

fun step :: "'a action \<Rightarrow> 'a step" where
  "step (CallEmit v) sy = Emit v sy"
| "step SendRecv sy = send_recv sy"
| "step EmitReturn sy = emit_return sy"
| "step EmitCtxDone sy = emit_ctx_done sy"
| "step CallClose sy = close_call None sy"
| "step (CallCloseWithError e) sy = close_call e sy"
| "step (CallSetLength l) sy = set_length_call l sy"
| "step CallNext sy = next_call sy"
| "step CallNextNil sy = Some ([Next_nil], sy)"
| "step NextChClosed sy = next_ch_closed sy"
| "step NextCtxDone sy = next_ctx_done sy"
| "step CallLength sy = length_call sy"
| "step CallError sy = error_call sy"
| "step (CancelCtx e) sy = cancel_ctx e sy"

text \<open>A run takes the steps of a schedule in order, and shows the events in order.\<close>

fun run :: "'a sys \<Rightarrow> 'a action list \<Rightarrow> ('a event list \<times> 'a sys) option" where
  "run sy [] = Some ([], sy)"
| "run sy (a # as) =
     (case step a sy of
        None \<Rightarrow> None
      | Some (es, sy') \<Rightarrow>
          (case run sy' as of
             None \<Rightarrow> None
           | Some (es', sy'') \<Rightarrow> Some (es @ es', sy'')))"

section \<open>What a run shows, and the invariant of the stream\<close>

text \<open>The error that \<^verbatim>\<open>closeWithError\<close> records for the argument of a close.\<close>

fun recorded :: "error option \<Rightarrow> error" where
  "recorded None = EOF"
| "recorded (Some (CmdkitErrorV e)) = CmdkitErrorP e"
| "recorded (Some e) = e"

fun is_struct_value :: "error option \<Rightarrow> bool" where
  "is_struct_value (Some (CmdkitErrorV e)) = True"
| "is_struct_value _ = False"

text \<open>
  The invariant of the states a run reaches: the flag \<^verbatim>\<open>closed\<close>, the two channels
  \<^verbatim>\<open>ch\<close> and \<^verbatim>\<open>closeCh\<close> and the presence of the recorded error change together;
  a closed stream has fired its first-activity signal; the recorded error is never a
  \<^verbatim>\<open>cmdkit.Error\<close> by value; and a call of \<^verbatim>\<open>Emit\<close> that waits or has sent found
  the stream open, fired the signal, read a context and passed the assertion.
\<close>

fun emitting_ok :: "chanStream \<Rightarrow> 'a iface \<Rightarrow> bool" where
  "emitting_ok re v =
     (\<not> closed re \<and> waitLen re = ChanClosed \<and> Context (req re) \<noteq> None \<and>
      \<not> is_error v \<and> \<not> is_chan v)"

definition stream_inv :: "'a sys \<Rightarrow> bool" where
  "stream_inv sy =
     (let re = stream sy in
      closed re = (ch re = ChanClosed) \<and>
      closed re = (closeCh re = ChanClosed) \<and>
      closed re = (err re \<noteq> None) \<and>
      (closed re \<longrightarrow> waitLen re = ChanClosed) \<and>
      \<not> is_struct_value (err re) \<and>
      (case emitter sy of
         NoEmit \<Rightarrow> True
       | Sending v \<Rightarrow> emitting_ok re v
       | Sent v \<Rightarrow> emitting_ok re v))"

text \<open>The values that calls of \<^verbatim>\<open>Next\<close> returned with a nil error, in order.\<close>

fun delivered1 :: "'a event \<Rightarrow> 'a iface list" where
  "delivered1 (NextRet v None) = [v]"
| "delivered1 _ = []"

definition delivered :: "'a event list \<Rightarrow> 'a iface list" where
  "delivered es = concat (map delivered1 es)"

text \<open>The arguments of the calls of \<^verbatim>\<open>Emit\<close> that returned nil, in order.\<close>

fun emitted1 :: "'a event \<Rightarrow> 'a iface list" where
  "emitted1 (EmitRet v None) = [v]"
| "emitted1 _ = []"

definition emitted :: "'a event list \<Rightarrow> 'a iface list" where
  "emitted es = concat (map emitted1 es)"

text \<open>The value that has passed the channel while its \<^verbatim>\<open>Emit\<close> has not returned yet.\<close>

fun in_flight :: "'a emitter \<Rightarrow> 'a iface list" where
  "in_flight (Sent v) = [v]"
| "in_flight _ = []"

fun is_next :: "'a event \<Rightarrow> bool" where
  "is_next (NextRet v e) = True"
| "is_next _ = False"

definition nexts :: "'a event list \<Rightarrow> 'a event list" where
  "nexts es = filter is_next es"

text \<open>The returns and panics of \<^verbatim>\<open>Emit\<close>, \<^verbatim>\<open>Close\<close> and \<^verbatim>\<open>CloseWithError\<close>.\<close>

fun is_emit_close :: "'a event \<Rightarrow> bool" where
  "is_emit_close (EmitRet v e) = True"
| "is_emit_close (EmitPanic v p) = True"
| "is_emit_close (EmitChanCall v) = True"
| "is_emit_close (CloseRet e r) = True"
| "is_emit_close (ClosePanic e p) = True"
| "is_emit_close _ = False"

definition emits_closes :: "'a event list \<Rightarrow> 'a event list" where
  "emits_closes es = filter is_emit_close es"

text \<open>The calls of \<^verbatim>\<open>Emit\<close> that ended, by a return or by a panic, in order.\<close>

fun is_emit_end :: "'a event \<Rightarrow> bool" where
  "is_emit_end (EmitRet v e) = True"
| "is_emit_end (EmitPanic v p) = True"
| "is_emit_end _ = False"

definition emit_ends :: "'a event list \<Rightarrow> 'a event list" where
  "emit_ends es = filter is_emit_end es"

fun is_panic :: "'a event \<Rightarrow> bool" where
  "is_panic (EmitPanic v p) = True"
| "is_panic (ClosePanic e p) = True"
| "is_panic _ = False"

text \<open>The argument of a call of \<^verbatim>\<open>Close\<close> or \<^verbatim>\<open>CloseWithError\<close>.\<close>

fun close_arg :: "'a action \<Rightarrow> error option option" where
  "close_arg CallClose = Some None"
| "close_arg (CallCloseWithError e) = Some e"
| "close_arg _ = None"

text \<open>
  What a closed stream may still show: \<^verbatim>\<open>Emit\<close> fails with the closed-emitter error
  (or panics in its assertion), a close fails with the double-close error, and
  \<^verbatim>\<open>Next\<close> returns no value but an error.
\<close>

fun after_close :: "'a event \<Rightarrow> bool" where
  "after_close (EmitRet v r) = (r = Some ErrClosedEmitter)"
| "after_close (EmitPanic v p) = (p = AssertionFailed \<and> is_error v)"
| "after_close (CloseRet e r) = (r = Some ErrClosingClosedEmitter)"
| "after_close (ClosePanic e p) = False"
| "after_close (NextRet v r) = (v = NilV \<and> r \<noteq> None)"
| "after_close _ = True"



text \<open>The returns and panics of \<^verbatim>\<open>Close\<close> and \<^verbatim>\<open>CloseWithError\<close>, in order.\<close>

fun is_close :: "'a event \<Rightarrow> bool" where
  "is_close (CloseRet e r) = True"
| "is_close (ClosePanic e p) = True"
| "is_close _ = False"

definition closes :: "'a event list \<Rightarrow> 'a event list" where
  "closes es = filter is_close es"

fun close_succeeded :: "'a event \<Rightarrow> bool" where
  "close_succeeded (CloseRet e r) = (r = None)"
| "close_succeeded _ = False"

fun close_failed :: "'a event \<Rightarrow> bool" where
  "close_failed (CloseRet e r) = (r = Some ErrClosingClosedEmitter)"
| "close_failed _ = False"

fun is_single :: "'a iface \<Rightarrow> bool" where
  "is_single (Single x) = True"
| "is_single _ = False"

text \<open>
  The closes of a run: the first succeeds, unless an \<^verbatim>\<open>Emit\<close> of a single value has
  returned nil (it closed the stream itself), and every other fails with the
  double-close error.
\<close>

definition first_close_wins :: "'a event list \<Rightarrow> bool" where
  "first_close_wins es =
     (case closes es of
        [] \<Rightarrow> True
      | c # cs \<Rightarrow>
          (if list_ex is_single (emitted es) then close_failed c else close_succeeded c) \<and>
          list_all close_failed cs)"

text \<open>
  The terminal error as a structured error, in the spec's words: nil for a stream that
  ended without error (nil or the end-of-stream sentinel); a structured error is
  preserved; an unstructured one is downgraded to a plain message.
\<close>

fun structured :: "error option \<Rightarrow> cmdkit_Error option" where
  "structured None = None"
| "structured (Some EOF) = None"
| "structured (Some (CmdkitErrorV e)) = Some e"
| "structured (Some (CmdkitErrorP e)) = Some e"
| "structured (Some x) = Some \<lparr>Message = error_Error x, Code = 0\<rparr>"

text \<open>The one panic of a run on a request that carries a context: the assertion of
  \<^verbatim>\<open>Emit\<close> on a raw error value.\<close>

fun assertion_only :: "'a event \<Rightarrow> bool" where
  "assertion_only (EmitPanic v p) = (p = AssertionFailed \<and> is_error v)"
| "assertion_only (ClosePanic e p) = False"
| "assertion_only _ = True"

text \<open>The calls that start production: \<^verbatim>\<open>Emit\<close>, \<^verbatim>\<open>Close\<close> and \<^verbatim>\<open>CloseWithError\<close>.\<close>

fun is_emit_or_close :: "'a action \<Rightarrow> bool" where
  "is_emit_or_close (CallEmit v) = True"
| "is_emit_or_close CallClose = True"
| "is_emit_or_close (CallCloseWithError e) = True"
| "is_emit_or_close _ = False"

fun is_set_length :: "'a action \<Rightarrow> bool" where
  "is_set_length (CallSetLength l) = True"
| "is_set_length _ = False"

text \<open>The lengths that calls of \<^verbatim>\<open>Length\<close> returned.\<close>

fun length1 :: "'a event \<Rightarrow> 64 word list" where
  "length1 (LengthRet l) = [l]"
| "length1 _ = []"

definition lengths :: "'a event list \<Rightarrow> 64 word list" where
  "lengths es = concat (map length1 es)"

text \<open>
  A value that \<^verbatim>\<open>Emit\<close> sends and that leaves the stream open: no raw error, no
  channel, no single-value marker.
\<close>

fun plain :: "'a iface \<Rightarrow> bool" where
  "plain v = (\<not> is_error v \<and> \<not> is_chan v \<and> \<not> is_single v)"

text \<open>
  The schedule of a consumer that asks for each value before the producer emits it; the
  producer closes with \<open>e\<close> after the last value, and the consumer asks once more.
\<close>

fun schedule :: "error option \<Rightarrow> 'a iface list \<Rightarrow> 'a action list" where
  "schedule e [] = [CallCloseWithError e, CallNext, NextChClosed]"
| "schedule e (v # vs) = [CallNext, CallEmit v, SendRecv, EmitReturn] @ schedule e vs"

section \<open>The steps, case by case\<close>

text \<open>
  For every step function, the cases in which it can be taken, with the event it shows
  and the state it leaves; \<open>step_cases\<close> collects them for a step of any action. The
  invariants of a run are proved by this case analysis.
\<close>

lemma unblock_closed [simp]: "unblock c = ChanClosed"
  by (cases c) simp_all

lemma chan_neq [simp]: "(c \<noteq> ChanClosed) = (c = ChanOpen)" "(c \<noteq> ChanOpen) = (c = ChanClosed)"
  by (cases c; simp)+

lemma Err_Some: "(Err c = Some e) = (c = Ctx (Some e))"
  by (cases c) auto

lemma closeWithError_open:
  "ch re = ChanOpen \<Longrightarrow> closeWithError e re =
     (None, re\<lparr>closed := True, err := Some (recorded e), ch := ChanClosed,
                waitLen := ChanClosed, closeCh := ChanClosed\<rparr>)"
  by (cases "(e)" rule: recorded.cases; cases "waitLen re"; cases "closeCh re")
     (simp_all add: closeWithError_def)

lemma recorded_not_struct_value: "\<not> is_struct_value (Some (recorded e))"
  by (cases e rule: recorded.cases) simp_all

lemma NewSys_inv: "stream_inv (NewSys rq)"
  by (simp add: stream_inv_def Let_def NewSys_def NewChanResponsePair_def)


lemma Emit_elim:
  assumes "Emit v sy = Some (es, sy')"
  obtains
    (EmitChan) "is_chan v" "es = [EmitChanCall v]" "sy' = sy"
  | (EmitAssert) "\<not> is_chan v" "is_error v" "emitter sy = NoEmit"
      "es = [EmitPanic v AssertionFailed]" "sy' = sy"
  | (EmitClosed) "\<not> is_error v" "\<not> is_chan v" "emitter sy = NoEmit" "closed (stream sy)"
      "es = [EmitRet v (Some ErrClosedEmitter)]"
      "sy' = sy\<lparr>stream := (stream sy)\<lparr>waitLen := ChanClosed\<rparr>\<rparr>"
  | (EmitNilCtx) "\<not> is_error v" "\<not> is_chan v" "emitter sy = NoEmit" "\<not> closed (stream sy)"
      "Context (req (stream sy)) = None" "es = [EmitPanic v NilDereference]"
      "sy' = sy\<lparr>stream := (stream sy)\<lparr>waitLen := ChanClosed\<rparr>\<rparr>"
  | (EmitWait) "\<not> is_error v" "\<not> is_chan v" "emitter sy = NoEmit" "\<not> closed (stream sy)"
      "Context (req (stream sy)) \<noteq> None" "es = []"
      "sy' = sy\<lparr>stream := (stream sy)\<lparr>waitLen := ChanClosed\<rparr>, emitter := Sending v\<rparr>"
proof (cases "is_chan v")
  case True
  with assms show ?thesis by (intro EmitChan) (simp_all add: Emit_def)
next
  case nc: False
  from assms nc have idle: "emitter sy = NoEmit"
    by (simp add: Emit_def split: emitter.splits)
  show ?thesis
  proof (cases "is_error v")
    case True
    with assms nc idle show ?thesis
      by (intro EmitAssert) (simp_all add: Emit_def AssertNotError_def)
  next
    case ne: False
    show ?thesis
    proof (cases "closed (stream sy)")
      case True
      with assms nc idle ne show ?thesis
        by (intro EmitClosed) (simp_all add: Emit_def AssertNotError_def)
    next
      case op: False
      show ?thesis
      proof (cases "Context (req (stream sy))")
        case None
        with assms nc idle ne op show ?thesis
          by (intro EmitNilCtx) (simp_all add: Emit_def AssertNotError_def)
      next
        case (Some c)
        with assms nc idle ne op show ?thesis
          by (intro EmitWait) (simp_all add: Emit_def AssertNotError_def)
      qed
    qed
  qed
qed

lemma send_recv_elim:
  assumes "send_recv sy = Some (es, sy')"
  obtains
    (SendPanic) v where "emitter sy = Sending v" "ch (stream sy) = ChanClosed"
      "es = [EmitPanic v SendOnClosedChannel]" "sy' = sy\<lparr>emitter := NoEmit\<rparr>"
  | (Send) v where "emitter sy = Sending v" "ch (stream sy) = ChanOpen" "receiver sy = Receiving"
      "\<forall>e. Context (req (stream sy)) \<noteq> Some (Ctx (Some e))"
      "es = [NextRet (unwrap v) None]" "sy' = sy\<lparr>emitter := Sent v, receiver := NoNext\<rparr>"
  using assms
  by (auto simp: send_recv_def
           split: emitter.splits chan.splits receiver.splits option.splits ctx.splits)

lemma emit_return_elim:
  assumes "emit_return sy = Some (es, sy')"
  obtains
    (RetPlain) v where "emitter sy = Sent v" "unwrap v = v" "\<forall>x. v \<noteq> Single x"
      "es = [EmitRet v None]" "sy' = sy\<lparr>emitter := NoEmit\<rparr>"
  | (RetSingle) x where "emitter sy = Sent (Single x)" "ch (stream sy) = ChanOpen"
      "es = [EmitRet (Single x) None]"
      "sy' = sy\<lparr>stream := (stream sy)\<lparr>closed := True, err := Some EOF, ch := ChanClosed,
                waitLen := ChanClosed, closeCh := ChanClosed\<rparr>, emitter := NoEmit\<rparr>"
  | (RetPanic) x where "emitter sy = Sent (Single x)" "ch (stream sy) = ChanClosed"
      "es = [EmitPanic (Single x) CloseOfClosedChannel]"
      "sy' = sy\<lparr>stream := (stream sy)\<lparr>closed := True, err := Some EOF\<rparr>, emitter := NoEmit\<rparr>"
proof -
  from assms obtain v where v: "emitter sy = Sent v"
    by (auto simp: emit_return_def split: emitter.splits)
  show ?thesis
  proof (cases v)
    case (Single x)
    show ?thesis
    proof (cases "ch (stream sy)")
      case ChanOpen
      with assms v Single show ?thesis
        using closeWithError_open[of "stream sy" None]
        by (intro RetSingle[of x]) (simp_all add: emit_return_def)
    next
      case ChanClosed
      with assms v Single show ?thesis
        by (intro RetPanic[of x]) (auto simp add: emit_return_def closeWithError_def)
    qed
  qed (use assms v in \<open>intro RetPlain[of v]; simp add: emit_return_def; fail\<close>)+
qed

lemma emit_ctx_done_elim:
  assumes "emit_ctx_done sy = Some (es, sy')"
  obtains v e where "emitter sy = Sending v" "Context (req (stream sy)) = Some (Ctx (Some e))"
      "es = [EmitRet v (Some e)]" "sy' = sy\<lparr>emitter := NoEmit\<rparr>"
  using assms
  by (auto simp: emit_ctx_done_def split: emitter.splits option.splits ctx.splits)

lemma close_call_elim:
  assumes "close_call e sy = Some (es, sy')"
  obtains
    (CloseTwice) "emitter sy = NoEmit" "closed (stream sy)"
      "es = [CloseRet e (Some ErrClosingClosedEmitter)]" "sy' = sy"
  | (CloseOk) "emitter sy = NoEmit" "\<not> closed (stream sy)" "ch (stream sy) = ChanOpen"
      "es = [CloseRet e None]"
      "sy' = sy\<lparr>stream := (stream sy)\<lparr>closed := True, err := Some (recorded e), ch := ChanClosed,
                waitLen := ChanClosed, closeCh := ChanClosed\<rparr>\<rparr>"
  | (ClosePanic) "emitter sy = NoEmit" "\<not> closed (stream sy)" "ch (stream sy) = ChanClosed"
      "es = [ClosePanic e CloseOfClosedChannel]"
      "sy' = sy\<lparr>stream := (stream sy)\<lparr>closed := True, err := Some (recorded e)\<rparr>\<rparr>"
proof -
  from assms have idle: "emitter sy = NoEmit"
    by (auto simp: close_call_def split: emitter.splits)
  show ?thesis
  proof (cases "closed (stream sy)")
    case True
    with assms idle show ?thesis
      by (intro CloseTwice) (simp_all add: close_call_def CloseWithError_def)
  next
    case op: False
    show ?thesis
    proof (cases "ch (stream sy)")
      case ChanOpen
      with assms idle op show ?thesis
        using closeWithError_open[of "stream sy" e]
        by (intro CloseOk) (simp_all add: close_call_def CloseWithError_def)
    next
      case ChanClosed
      with assms idle op show ?thesis
        by (intro ClosePanic; cases e rule: recorded.cases)
           (auto simp add: close_call_def CloseWithError_def closeWithError_def)
    qed
  qed
qed

lemma set_length_call_elim:
  assumes "set_length_call l sy = Some (es, sy')"
  obtains
    (SetLength) "emitter sy = NoEmit" "waitLen (stream sy) = ChanOpen" "es = [SetLengthRet l]"
      "sy' = sy\<lparr>stream := (stream sy)\<lparr>length_u64 := l\<rparr>\<rparr>"
  | (SetLengthFrozen) "emitter sy = NoEmit" "waitLen (stream sy) = ChanClosed"
      "es = [SetLengthRet l]" "sy' = sy"
  using assms
  by (cases "waitLen (stream sy)")
     (auto simp: set_length_call_def SetLength_def split: emitter.splits)

lemma next_call_elim:
  assumes "next_call sy = Some (es, sy')"
  obtains "receiver sy = NoNext" "es = []" "sy' = sy\<lparr>receiver := Receiving\<rparr>"
  using assms by (auto simp: next_call_def split: receiver.splits)

lemma next_ch_closed_elim:
  assumes "next_ch_closed sy = Some (es, sy')"
  obtains "receiver sy = Receiving" "ch (stream sy) = ChanClosed"
    "es = [NextRet NilV (err (stream sy))]" "sy' = sy\<lparr>receiver := NoNext\<rparr>"
  using assms by (auto simp: next_ch_closed_def split: receiver.splits chan.splits)

lemma next_ctx_done_elim:
  assumes "next_ctx_done sy = Some (es, sy')"
  obtains e where "receiver sy \<noteq> NoNext" "Context (req (stream sy)) = Some (Ctx (Some e))"
    "es = [NextRet NilV (Some e)]" "sy' = sy\<lparr>receiver := NoNext\<rparr>"
proof -
  from assms have r: "receiver sy \<noteq> NoNext"
    by (auto simp: next_ctx_done_def split: receiver.splits)
  with assms obtain e where e: "Err (Next_ctx (stream sy)) = Some e"
    by (auto simp: next_ctx_done_def split: option.splits receiver.splits)
  then have "Context (req (stream sy)) = Some (Ctx (Some e))"
    by (cases "Context (req (stream sy))")
       (auto simp: Next_ctx_def Background_def Err_Some)
  with assms r e show thesis
    by (intro that[of e]) (auto simp: next_ctx_done_def split: receiver.splits)
qed

lemma length_call_elim:
  assumes "length_call sy = Some (es, sy')"
  obtains "waitLen (stream sy) = ChanClosed" "es = [LengthRet (length_u64 (stream sy))]" "sy' = sy"
proof -
  from assms have w: "waitLen (stream sy) = ChanClosed"
    by (cases "waitLen (stream sy)") (simp_all add: length_call_def Length_def)
  with assms have "es = [LengthRet (length_u64 (stream sy))]" and "sy' = sy"
    by (auto simp: length_call_def Length_def)
  with w show thesis by (rule that)
qed

lemma cancel_ctx_elim:
  assumes "cancel_ctx e sy = Some (es, sy')"
  obtains
    (Cancel) "Context (req (stream sy)) = Some (Ctx None)" "es = []"
      "sy' = sy\<lparr>stream := (stream sy)\<lparr>req := (req (stream sy))\<lparr>Context := Some (Ctx (Some e))\<rparr>\<rparr>,
                receiver := wake (ch (stream sy)) (receiver sy)\<rparr>"
  | (CancelAgain) e' where "Context (req (stream sy)) = Some (Ctx (Some e'))" "es = []" "sy' = sy"
  using assms by (auto simp: cancel_ctx_def split: option.splits ctx.splits)

lemma step_cases [consumes 1, case_names EmitChan EmitAssert EmitClosed EmitNilCtx EmitWait
    SendPanic Send RetPlain RetSingle RetPanic EmitDone CloseTwice CloseOk ClosePanic
    SetLength SetLengthFrozen Next NextNil NextClosed NextDone Length Error Cancel CancelAgain]:
  assumes "step a sy = Some (es, sy')"
  obtains
    (EmitChan) v where "a = CallEmit v" "is_chan v" "es = [EmitChanCall v]" "sy' = sy"
  | (EmitAssert) v where "a = CallEmit v" "\<not> is_chan v" "is_error v" "emitter sy = NoEmit"
      "es = [EmitPanic v AssertionFailed]" "sy' = sy"
  | (EmitClosed) v where "a = CallEmit v" "\<not> is_error v" "\<not> is_chan v" "emitter sy = NoEmit"
      "closed (stream sy)" "es = [EmitRet v (Some ErrClosedEmitter)]"
      "sy' = sy\<lparr>stream := (stream sy)\<lparr>waitLen := ChanClosed\<rparr>\<rparr>"
  | (EmitNilCtx) v where "a = CallEmit v" "\<not> is_error v" "\<not> is_chan v" "emitter sy = NoEmit"
      "\<not> closed (stream sy)" "Context (req (stream sy)) = None"
      "es = [EmitPanic v NilDereference]"
      "sy' = sy\<lparr>stream := (stream sy)\<lparr>waitLen := ChanClosed\<rparr>\<rparr>"
  | (EmitWait) v where "a = CallEmit v" "\<not> is_error v" "\<not> is_chan v" "emitter sy = NoEmit"
      "\<not> closed (stream sy)" "Context (req (stream sy)) \<noteq> None" "es = []"
      "sy' = sy\<lparr>stream := (stream sy)\<lparr>waitLen := ChanClosed\<rparr>, emitter := Sending v\<rparr>"
  | (SendPanic) v where "a = SendRecv" "emitter sy = Sending v" "ch (stream sy) = ChanClosed"
      "es = [EmitPanic v SendOnClosedChannel]" "sy' = sy\<lparr>emitter := NoEmit\<rparr>"
  | (Send) v where "a = SendRecv" "emitter sy = Sending v" "ch (stream sy) = ChanOpen"
      "receiver sy = Receiving" "\<forall>e. Context (req (stream sy)) \<noteq> Some (Ctx (Some e))"
      "es = [NextRet (unwrap v) None]"
      "sy' = sy\<lparr>emitter := Sent v, receiver := NoNext\<rparr>"
  | (RetPlain) v where "a = EmitReturn" "emitter sy = Sent v" "unwrap v = v" "\<forall>x. v \<noteq> Single x"
      "es = [EmitRet v None]" "sy' = sy\<lparr>emitter := NoEmit\<rparr>"
  | (RetSingle) x where "a = EmitReturn" "emitter sy = Sent (Single x)" "ch (stream sy) = ChanOpen"
      "es = [EmitRet (Single x) None]"
      "sy' = sy\<lparr>stream := (stream sy)\<lparr>closed := True, err := Some EOF, ch := ChanClosed,
                waitLen := ChanClosed, closeCh := ChanClosed\<rparr>, emitter := NoEmit\<rparr>"
  | (RetPanic) x where "a = EmitReturn" "emitter sy = Sent (Single x)" "ch (stream sy) = ChanClosed"
      "es = [EmitPanic (Single x) CloseOfClosedChannel]"
      "sy' = sy\<lparr>stream := (stream sy)\<lparr>closed := True, err := Some EOF\<rparr>, emitter := NoEmit\<rparr>"
  | (EmitDone) v e where "a = EmitCtxDone" "emitter sy = Sending v"
      "Context (req (stream sy)) = Some (Ctx (Some e))"
      "es = [EmitRet v (Some e)]" "sy' = sy\<lparr>emitter := NoEmit\<rparr>"
  | (CloseTwice) e where "close_arg a = Some e" "emitter sy = NoEmit" "closed (stream sy)"
      "es = [CloseRet e (Some ErrClosingClosedEmitter)]" "sy' = sy"
  | (CloseOk) e where "close_arg a = Some e" "emitter sy = NoEmit" "\<not> closed (stream sy)"
      "ch (stream sy) = ChanOpen" "es = [CloseRet e None]"
      "sy' = sy\<lparr>stream := (stream sy)\<lparr>closed := True, err := Some (recorded e), ch := ChanClosed,
                waitLen := ChanClosed, closeCh := ChanClosed\<rparr>\<rparr>"
  | (ClosePanic) e where "close_arg a = Some e" "emitter sy = NoEmit" "\<not> closed (stream sy)"
      "ch (stream sy) = ChanClosed" "es = [ClosePanic e CloseOfClosedChannel]"
      "sy' = sy\<lparr>stream := (stream sy)\<lparr>closed := True, err := Some (recorded e)\<rparr>\<rparr>"
  | (SetLength) l where "a = CallSetLength l" "emitter sy = NoEmit"
      "waitLen (stream sy) = ChanOpen" "es = [SetLengthRet l]"
      "sy' = sy\<lparr>stream := (stream sy)\<lparr>length_u64 := l\<rparr>\<rparr>"
  | (SetLengthFrozen) l where "a = CallSetLength l" "emitter sy = NoEmit"
      "waitLen (stream sy) = ChanClosed" "es = [SetLengthRet l]" "sy' = sy"
  | (Next) "a = CallNext" "receiver sy = NoNext" "es = []" "sy' = sy\<lparr>receiver := Receiving\<rparr>"
  | (NextNil) "a = CallNextNil" "es = [NextNilRet NilV (Some EOF)]" "sy' = sy"
  | (NextClosed) "a = NextChClosed" "receiver sy = Receiving" "ch (stream sy) = ChanClosed"
      "es = [NextRet NilV (err (stream sy))]" "sy' = sy\<lparr>receiver := NoNext\<rparr>"
  | (NextDone) e where "a = NextCtxDone" "receiver sy \<noteq> NoNext"
      "Context (req (stream sy)) = Some (Ctx (Some e))"
      "es = [NextRet NilV (Some e)]" "sy' = sy\<lparr>receiver := NoNext\<rparr>"
  | (Length) "a = CallLength" "waitLen (stream sy) = ChanClosed"
      "es = [LengthRet (length_u64 (stream sy))]" "sy' = sy"
  | (Error) "a = CallError" "es = [ErrorRet (Error (stream sy))]" "sy' = sy"
  | (Cancel) e where "a = CancelCtx e" "Context (req (stream sy)) = Some (Ctx None)" "es = []"
      "sy' = sy\<lparr>stream := (stream sy)\<lparr>req := (req (stream sy))\<lparr>Context := Some (Ctx (Some e))\<rparr>\<rparr>,
                receiver := wake (ch (stream sy)) (receiver sy)\<rparr>"
  | (CancelAgain) e e' where "a = CancelCtx e" "Context (req (stream sy)) = Some (Ctx (Some e'))"
      "es = []" "sy' = sy"
proof (cases a)
  case (CallEmit v)
  with assms have "Emit v sy = Some (es, sy')" by simp
  then show ?thesis
    by (cases rule: Emit_elim) (use CallEmit EmitChan EmitAssert EmitClosed EmitNilCtx EmitWait in blast)+
next
  case SendRecv
  with assms have "send_recv sy = Some (es, sy')" by simp
  then show ?thesis
    by (cases rule: send_recv_elim) (use SendRecv SendPanic Send in blast)+
next
  case EmitReturn
  with assms have "emit_return sy = Some (es, sy')" by simp
  then show ?thesis
    by (cases rule: emit_return_elim) (use EmitReturn RetPlain RetSingle RetPanic in blast)+
next
  case EmitCtxDone
  with assms have "emit_ctx_done sy = Some (es, sy')" by simp
  then show ?thesis
    by (cases rule: emit_ctx_done_elim) (use EmitCtxDone EmitDone in blast)
next
  case CallClose
  with assms have "close_call None sy = Some (es, sy')" by simp
  moreover have "close_arg a = Some None" using CallClose by simp
  ultimately show ?thesis
    by (cases rule: close_call_elim) (use CloseTwice CloseOk ClosePanic in blast)+
next
  case (CallCloseWithError e)
  with assms have "close_call e sy = Some (es, sy')" by simp
  moreover have "close_arg a = Some e" using CallCloseWithError by simp
  ultimately show ?thesis
    by (cases rule: close_call_elim) (use CloseTwice CloseOk ClosePanic in blast)+
next
  case (CallSetLength l)
  with assms have "set_length_call l sy = Some (es, sy')" by simp
  then show ?thesis
    by (cases rule: set_length_call_elim) (use CallSetLength SetLength SetLengthFrozen in blast)+
next
  case CallNext
  with assms have "next_call sy = Some (es, sy')" by simp
  then show ?thesis
    by (cases rule: next_call_elim) (use CallNext Next in blast)
next
  case CallNextNil
  with assms NextNil show ?thesis by (auto simp: Next_nil_def)
next
  case NextChClosed
  with assms have "next_ch_closed sy = Some (es, sy')" by simp
  then show ?thesis
    by (cases rule: next_ch_closed_elim) (use NextChClosed NextClosed in blast)
next
  case NextCtxDone
  with assms have "next_ctx_done sy = Some (es, sy')" by simp
  then show ?thesis
    by (cases rule: next_ctx_done_elim) (use NextCtxDone NextDone in blast)
next
  case CallLength
  with assms have "length_call sy = Some (es, sy')" by simp
  then show ?thesis
  proof (cases rule: length_call_elim)
    case 1
    show ?thesis by (rule Length) (fact CallLength, fact 1(1), fact 1(2), fact 1(3))
  qed
next
  case CallError
  with assms have "es = [ErrorRet (Error (stream sy))]" and "sy' = sy"
    by (auto simp: error_call_def)
  with CallError show ?thesis by (rule Error)
next
  case (CancelCtx e)
  with assms have "cancel_ctx e sy = Some (es, sy')" by simp
  then show ?thesis
    by (cases rule: cancel_ctx_elim) (use CancelCtx Cancel CancelAgain in blast)+
qed

lemma step_inv:
  assumes "stream_inv sy" and "step a sy = Some (es, sy')"
  shows "stream_inv sy'"
  using assms(2,1) recorded_not_struct_value
  by (cases rule: step_cases)
     (auto simp: stream_inv_def Let_def split: emitter.splits)

lemma run_snoc:
  "run sy (tr @ [a]) =
     (case run sy tr of
        None \<Rightarrow> None
      | Some (es, sy') \<Rightarrow>
          (case step a sy' of None \<Rightarrow> None | Some (es', sy'') \<Rightarrow> Some (es @ es', sy'')))"
  by (induction tr arbitrary: sy) (auto split: option.splits)

lemma run_append:
  "run sy (tr @ tr') =
     (case run sy tr of
        None \<Rightarrow> None
      | Some (es, sy') \<Rightarrow>
          (case run sy' tr' of None \<Rightarrow> None | Some (es', sy'') \<Rightarrow> Some (es @ es', sy'')))"
  by (induction tr arbitrary: sy) (auto split: option.splits)

lemma run_induct [consumes 1, case_names init step]:
  assumes "run sy0 tr = Some (es, sy)"
    and "P [] sy0"
    and "\<And>es sy a es' sy'. P es sy \<Longrightarrow> a \<in> set tr \<Longrightarrow> step a sy = Some (es', sy') \<Longrightarrow> P (es @ es') sy'"
  shows "P es sy"
  using assms(1,3)
proof (induction tr arbitrary: es sy rule: rev_induct)
  case Nil
  with assms(2) show ?case by simp
next
  case (snoc a tr)
  from snoc.prems(1) obtain es1 sy1 es2 where
    r: "run sy0 tr = Some (es1, sy1)" and s: "step a sy1 = Some (es2, sy)" and e: "es = es1 @ es2"
    by (auto simp: run_snoc split: option.splits)
  have "P es1 sy1"
    by (rule snoc.IH[OF r]) (rule snoc.prems(2), simp_all)
  then show ?case unfolding e by (rule snoc.prems(2)[where a=a]) (simp_all add: s)
qed

lemma run_inv:
  assumes "run sy0 tr = Some (es, sy)" and "stream_inv sy0"
  shows "stream_inv sy"
  using assms by (induction rule: run_induct) (auto intro: step_inv)


lemma waitLen_closed_id:
  "waitLen (stream sy) = ChanClosed \<Longrightarrow> sy\<lparr>stream := (stream sy)\<lparr>waitLen := ChanClosed\<rparr>\<rparr> = sy"
  by (cases sy) auto

lemma step_after_close:
  assumes "step a sy = Some (es, sy')" and "stream_inv sy" and "closed (stream sy)"
  shows "closed (stream sy') \<and> list_all after_close es \<and> emitter sy' = NoEmit"
  using assms
  by (cases rule: step_cases) (auto simp: stream_inv_def Let_def split: emitter.splits)

lemma run_after_close:
  assumes "run sy tr = Some (es, sy')" and "stream_inv sy" and "closed (stream sy)"
  shows "stream_inv sy' \<and> closed (stream sy') \<and> list_all after_close es \<and> emitter sy' = NoEmit"
  using assms
proof (induction rule: run_induct)
  case init
  then show ?case by (auto simp: stream_inv_def Let_def split: emitter.splits)
next
  case (step es sy a es' sy')
  then show ?case using step_after_close[of a sy es' sy'] step_inv[of sy a es' sy'] by auto
qed

lemmas run_eval = NewSys_def NewChanResponsePair_def Emit_def AssertNotError_def send_recv_def
  emit_return_def emit_ctx_done_def close_call_def CloseWithError_def closeWithError_def
  set_length_call_def SetLength_def next_call_def next_ch_closed_def next_ctx_done_def
  Next_ctx_def Background_def length_call_def Length_def error_call_def Error_def
  cancel_ctx_def Next_nil_def

section \<open>Invariants of a run\<close>

text \<open>
  Facts about every run of a fresh stream, each proved for a step from \<open>step_cases\<close>
  and carried along the run by \<open>run_induct\<close>: what \<^verbatim>\<open>Next\<close> has returned is what
  \<^verbatim>\<open>Emit\<close> has handed over; the recorded error is the one of the close that
  succeeded; the first close wins; the declared length is frozen by the first
  activity; the values come before the terminal error.
\<close>


lemma delivered_append [simp]: "delivered (es @ es') = delivered es @ delivered es'"
  by (simp add: delivered_def)

lemma emitted_append [simp]: "emitted (es @ es') = emitted es @ emitted es'"
  by (simp add: emitted_def)

lemma delivered_simps [simp]:
  "delivered [] = []" "delivered (e # es) = delivered1 e @ delivered es"
  by (simp_all add: delivered_def)

lemma emitted_simps [simp]:
  "emitted [] = []" "emitted (e # es) = emitted1 e @ emitted es"
  by (simp_all add: emitted_def)

lemma step_delivered:
  assumes "step a sy = Some (es', sy')" and "stream_inv sy"
    and "delivered es = map unwrap (emitted es @ in_flight (emitter sy))"
  shows "delivered (es @ es') = map unwrap (emitted (es @ es') @ in_flight (emitter sy'))"
  using assms
  by (cases rule: step_cases) (auto simp: stream_inv_def Let_def)

lemma run_delivered:
  assumes "run (NewSys rq) tr = Some (es, sy)"
  shows "stream_inv sy \<and> delivered es = map unwrap (emitted es @ in_flight (emitter sy))"
  using assms
proof (induction rule: run_induct)
  case init
  show ?case by (simp add: NewSys_inv) (simp add: NewSys_def)
next
  case (step es sy a es' sy')
  then show ?case using step_inv step_delivered by blast
qed


lemma closes_append [simp]: "closes (es @ es') = closes es @ closes es'"
  by (simp add: closes_def)

lemma closes_simps [simp]:
  "closes [] = []" "closes (e # es) = (if is_close e then e # closes es else closes es)"
  by (simp_all add: closes_def)

lemma nexts_append [simp]: "nexts (es @ es') = nexts es @ nexts es'"
  by (simp add: nexts_def)

lemma nexts_simps [simp]:
  "nexts [] = []" "nexts (e # es) = (if is_next e then e # nexts es else nexts es)"
  by (simp_all add: nexts_def)

lemma step_err_closes:
  assumes "step a sy = Some (es', sy')" and "stream_inv sy"
    and "closes es \<noteq> [] \<longrightarrow> closed (stream sy)"
    and "\<forall>e. CloseRet e None \<in> set es \<longrightarrow> err (stream sy) = Some (recorded e)"
    and "closed (stream sy) \<longrightarrow> err (stream sy) = Some EOF \<or> (\<exists>e. CloseRet e None \<in> set es)"
  shows "(closes (es @ es') \<noteq> [] \<longrightarrow> closed (stream sy')) \<and>
         (\<forall>e. CloseRet e None \<in> set (es @ es') \<longrightarrow> err (stream sy') = Some (recorded e)) \<and>
         (closed (stream sy') \<longrightarrow>
            err (stream sy') = Some EOF \<or> (\<exists>e. CloseRet e None \<in> set (es @ es')))"
  using assms
  by (cases rule: step_cases) (auto simp: stream_inv_def Let_def)

lemma run_err_closes:
  assumes "run (NewSys rq) tr = Some (es, sy)"
  shows "stream_inv sy \<and>
         (closes es \<noteq> [] \<longrightarrow> closed (stream sy)) \<and>
         (\<forall>e. CloseRet e None \<in> set es \<longrightarrow> err (stream sy) = Some (recorded e)) \<and>
         (closed (stream sy) \<longrightarrow> err (stream sy) = Some EOF \<or> (\<exists>e. CloseRet e None \<in> set es))"
  using assms
proof (induction rule: run_induct)
  case init
  show ?case by (simp add: NewSys_inv) (simp add: NewSys_def NewChanResponsePair_def)
next
  case (step es sy a es' sy')
  then show ?case using step_inv[of sy a es' sy'] step_err_closes[of a sy es' sy' es] by blast
qed

lemma is_single_iff: "is_single v = (\<exists>x. v = Single x)"
  by (cases v) auto

lemma step_first_close_wins:
  assumes "step a sy = Some (es', sy')" and "stream_inv sy"
    and "first_close_wins es"
    and "closed (stream sy) = (closes es \<noteq> [] \<or> list_ex is_single (emitted es))"
  shows "first_close_wins (es @ es') \<and>
         closed (stream sy') = (closes (es @ es') \<noteq> [] \<or> list_ex is_single (emitted (es @ es')))"
  using assms
  by (cases rule: step_cases)
     (auto simp: stream_inv_def Let_def first_close_wins_def is_single_iff split: list.splits)

lemma run_first_close_wins:
  assumes "run (NewSys rq) tr = Some (es, sy)"
  shows "stream_inv sy \<and> first_close_wins es \<and>
         closed (stream sy) = (closes es \<noteq> [] \<or> list_ex is_single (emitted es))"
  using assms
proof (induction rule: run_induct)
  case init
  show ?case
    by (simp add: NewSys_inv) (simp add: NewSys_def NewChanResponsePair_def first_close_wins_def)
next
  case (step es sy a es' sy')
  then show ?case using step_inv step_first_close_wins by blast
qed


lemma close_call_closed:
  assumes "closed (stream sy)" and "emitter sy = NoEmit"
  shows "close_call e sy = Some ([CloseRet e (Some ErrClosingClosedEmitter)], sy)"
  using assms by (simp add: close_call_def CloseWithError_def)

lemma close_call_open:
  assumes "\<not> closed (stream sy)" and "emitter sy = NoEmit" and "ch (stream sy) = ChanOpen"
  shows "close_call e sy = Some ([CloseRet e None],
           sy\<lparr>stream := (stream sy)\<lparr>closed := True, err := Some (recorded e), ch := ChanClosed,
                  waitLen := ChanClosed, closeCh := ChanClosed\<rparr>\<rparr>)"
  using assms by (simp add: close_call_def CloseWithError_def closeWithError_open)

lemma inv_closed_idle: "stream_inv sy \<Longrightarrow> closed (stream sy) \<Longrightarrow> emitter sy = NoEmit"
  by (auto simp: stream_inv_def Let_def split: emitter.splits)

lemma inv_closed_ch: "stream_inv sy \<Longrightarrow> closed (stream sy) = (ch (stream sy) = ChanClosed)"
  by (auto simp: stream_inv_def Let_def)


lemma lengths_append [simp]: "lengths (es @ es') = lengths es @ lengths es'"
  by (simp add: lengths_def)

lemma lengths_simps [simp]:
  "lengths [] = []" "lengths (e # es) = length1 e @ lengths es"
  by (simp_all add: lengths_def)

lemma step_frozen:
  assumes "step a sy = Some (es', sy')" and "waitLen (stream sy) = ChanClosed"
  shows "waitLen (stream sy') = ChanClosed \<and> length_u64 (stream sy') = length_u64 (stream sy) \<and>
         list_all (\<lambda>l. l = length_u64 (stream sy)) (lengths es')"
  using assms by (cases rule: step_cases) auto

lemma run_frozen:
  assumes "run sy tr = Some (es, sy')" and "waitLen (stream sy) = ChanClosed"
  shows "waitLen (stream sy') = ChanClosed \<and> length_u64 (stream sy') = length_u64 (stream sy) \<and>
         list_all (\<lambda>l. l = length_u64 (stream sy)) (lengths es)"
  using assms
proof (induction rule: run_induct)
  case init
  then show ?case by simp
next
  case (step es sy1 a es' sy2)
  then show ?case using step_frozen[of a sy1 es' sy2] by auto
qed

lemma step_lengths:
  assumes "step a sy = Some (es', sy')"
    and "waitLen (stream sy) = ChanOpen \<longrightarrow> lengths es = []"
    and "list_all (\<lambda>l. l = length_u64 (stream sy)) (lengths es)"
  shows "(waitLen (stream sy') = ChanOpen \<longrightarrow> lengths (es @ es') = []) \<and>
         list_all (\<lambda>l. l = length_u64 (stream sy')) (lengths (es @ es'))"
  using assms by (cases rule: step_cases) auto

lemma run_lengths:
  assumes "run (NewSys rq) tr = Some (es, sy)"
  shows "(waitLen (stream sy) = ChanOpen \<longrightarrow> lengths es = []) \<and>
         list_all (\<lambda>l. l = length_u64 (stream sy)) (lengths es)"
  using assms
proof (induction rule: run_induct)
  case init
  then show ?case by simp
next
  case (step es sy1 a es' sy2)
  then show ?case using step_lengths[of a sy1 es' sy2 es] by blast
qed

lemma close_arg_Some:
  "(close_arg a = Some e) = (a = CallClose \<and> e = None \<or> a = CallCloseWithError e)"
  by (cases a) auto

lemma run_before_activity:
  assumes "run (NewSys rq) tr = Some (es, sy)" and "list_all (\<lambda>a. \<not> is_emit_or_close a) tr"
  shows "waitLen (stream sy) = ChanOpen \<and> emitter sy = NoEmit"
  using assms
proof (induction rule: run_induct)
  case init
  then show ?case by (simp add: NewSys_def NewChanResponsePair_def)
next
  case (step es sy1 a es' sy2)
  from step.prems step.hyps(1) have na: "\<not> is_emit_or_close a" by (simp add: list_all_iff)
  from step.IH step.prems have "waitLen (stream sy1) = ChanOpen \<and> emitter sy1 = NoEmit" by simp
  with step.hyps(2) na show ?case by (cases rule: step_cases) (auto simp: close_arg_Some)
qed

lemma run_never_set:
  assumes "run (NewSys rq) tr = Some (es, sy)" and "list_all (\<lambda>a. \<not> is_set_length a) tr"
  shows "length_u64 (stream sy) = 0"
  using assms
proof (induction rule: run_induct)
  case init
  then show ?case by (simp add: NewSys_def NewChanResponsePair_def)
next
  case (step es sy1 a es' sy2)
  from step.prems step.hyps(1) have na: "\<not> is_set_length a" by (simp add: list_all_iff)
  from step.IH step.prems have "length_u64 (stream sy1) = 0" by simp
  with step.hyps(2) na show ?case by (cases rule: step_cases) auto
qed

lemma Error_structured:
  "closeCh re = ChanClosed \<Longrightarrow> err re = Some (recorded e) \<Longrightarrow> Error re = structured e"
  by (cases e rule: structured.cases) (simp_all add: Error_def)

lemma inv_sending_open:
  "stream_inv sy \<Longrightarrow> emitter sy = Sending v \<Longrightarrow> ch (stream sy) = ChanOpen"
  by (auto simp: stream_inv_def Let_def)

lemma step_assertion_only:
  assumes "step a sy = Some (es', sy')" and "stream_inv sy"
    and "Context (req (stream sy)) \<noteq> None"
  shows "Context (req (stream sy')) \<noteq> None \<and> list_all assertion_only es'"
  using assms
  by (cases rule: step_cases) (auto simp: stream_inv_def Let_def)

lemma run_assertion_only:
  assumes "run (NewSys rq) tr = Some (es, sy)" and "Context rq \<noteq> None"
  shows "stream_inv sy \<and> Context (req (stream sy)) \<noteq> None \<and> list_all assertion_only es"
  using assms
proof (induction rule: run_induct)
  case init
  then show ?case by (simp add: NewSys_inv) (simp add: NewSys_def NewChanResponsePair_def)
next
  case (step es sy1 a es' sy2)
  then show ?case
    using step_inv[of sy1 a es' sy2] step_assertion_only[of a sy1 es' sy2] by auto
qed

lemma step_events:
  assumes "step a sy = Some (es', sy')"
  shows "es' = [] \<or> (\<exists>e. es' = [e])"
  using assms by (cases rule: step_cases) auto

lemma step_closed_err:
  assumes "step a sy = Some (es', sy')" and "stream_inv sy" and "closed (stream sy)"
  shows "err (stream sy') = err (stream sy)"
  using assms by (cases rule: step_cases) (auto simp: stream_inv_def Let_def)

lemma after_close_delivered: "after_close e \<Longrightarrow> delivered1 e = []"
  by (cases e rule: delivered1.cases) auto

lemma snoc_eq_split:
  "(es @ [e'] = es1 @ ev # es2) =
     (es2 = [] \<and> es1 = es \<and> e' = ev \<or> (\<exists>es2'. es2 = es2' @ [e'] \<and> es = es1 @ ev # es2'))"
  by (cases es2 rule: rev_cases) auto

lemma step_single_ret:
  assumes "step a sy = Some ([EmitRet (Single x) None], sy')" and "stream_inv sy"
  shows "emitter sy = Sent (Single x) \<and> closed (stream sy') \<and> err (stream sy') = Some EOF"
  using assms by (cases rule: step_cases) (auto simp: stream_inv_def Let_def)

lemma step_single:
  assumes st: "step a sy = Some (es', sy')" and inv: "stream_inv sy"
    and g: "delivered es = map unwrap (emitted es @ in_flight (emitter sy))"
    and q: "\<forall>es1 x es2. es = es1 @ EmitRet (Single x) None # es2 \<longrightarrow>
              delivered es1 = map unwrap (emitted es1) @ [x] \<and> delivered es2 = [] \<and>
              list_all after_close es2 \<and> closed (stream sy) \<and> err (stream sy) = Some EOF"
  shows "\<forall>es1 x es2. es @ es' = es1 @ EmitRet (Single x) None # es2 \<longrightarrow>
              delivered es1 = map unwrap (emitted es1) @ [x] \<and> delivered es2 = [] \<and>
              list_all after_close es2 \<and> closed (stream sy') \<and> err (stream sy') = Some EOF"
proof (intro allI impI)
  fix es1 x es2
  assume eq: "es @ es' = es1 @ EmitRet (Single x) None # es2"
  let ?goal = "delivered es1 = map unwrap (emitted es1) @ [x] \<and> delivered es2 = [] \<and>
              list_all after_close es2 \<and> closed (stream sy') \<and> err (stream sy') = Some EOF"
  from step_events[OF st] consider "es' = []" | e' where "es' = [e']" by blast
  then show ?goal
  proof cases
    case 1
    with eq q have old: "delivered es1 = map unwrap (emitted es1) @ [x]" "delivered es2 = []"
      "list_all after_close es2" "closed (stream sy)" "err (stream sy) = Some EOF"
      by auto
    with step_after_close[OF st inv] step_closed_err[OF st inv] show ?thesis by simp
  next
    case 2
    with eq have "es2 = [] \<and> es1 = es \<and> e' = EmitRet (Single x) None \<or>
        (\<exists>es2'. es2 = es2' @ [e'] \<and> es = es1 @ EmitRet (Single x) None # es2')"
      by (simp add: snoc_eq_split)
    then show ?thesis
    proof (elim disjE conjE exE)
      assume a: "es2 = []" "es1 = es" "e' = EmitRet (Single x) None"
      with 2 st have "step a sy = Some ([EmitRet (Single x) None], sy')" by simp
      from step_single_ret[OF this inv] g a show ?thesis by simp
    next
      fix es2'
      assume a: "es2 = es2' @ [e']" "es = es1 @ EmitRet (Single x) None # es2'"
      with q have old: "delivered es1 = map unwrap (emitted es1) @ [x]" "delivered es2' = []"
        "list_all after_close es2'" "closed (stream sy)" "err (stream sy) = Some EOF"
        by auto
      from step_after_close[OF st inv old(4)] 2 have "after_close e'" "closed (stream sy')"
        by simp_all
      with old a step_closed_err[OF st inv old(4)] show ?thesis
        by (simp add: after_close_delivered)
    qed
  qed
qed

lemma run_single:
  assumes "run (NewSys rq) tr = Some (es, sy)"
  shows "stream_inv sy \<and> delivered es = map unwrap (emitted es @ in_flight (emitter sy)) \<and>
         (\<forall>es1 x es2. es = es1 @ EmitRet (Single x) None # es2 \<longrightarrow>
              delivered es1 = map unwrap (emitted es1) @ [x] \<and> delivered es2 = [] \<and>
              list_all after_close es2 \<and> closed (stream sy) \<and> err (stream sy) = Some EOF)"
  using assms
proof (induction rule: run_induct)
  case init
  then show ?case by (simp add: NewSys_inv) (simp add: NewSys_def)
next
  case (step es sy1 a es' sy2)
  then show ?case
    using step_inv[of sy1 a es' sy2] step_delivered[of a sy1 es' sy2 es]
      step_single[of a sy1 es' sy2 es]
    by blast
qed

lemma step_nexts:
  assumes st: "step a sy = Some (es', sy')" and na: "a \<noteq> NextCtxDone" and inv: "stream_inv sy"
    and n: "nexts es = map (\<lambda>v. NextRet v None) (delivered es) @
              replicate k (NextRet NilV (err (stream sy)))"
    and k: "0 < k \<longrightarrow> closed (stream sy)"
  shows "\<exists>k'. nexts (es @ es') = map (\<lambda>v. NextRet v None) (delivered (es @ es')) @
              replicate k' (NextRet NilV (err (stream sy'))) \<and>
            (0 < k' \<longrightarrow> closed (stream sy'))"
  using st
proof (cases rule: step_cases)
  case (NextClosed)
  with inv have c: "closed (stream sy)" by (simp add: stream_inv_def Let_def)
  with inv obtain x where x: "err (stream sy) = Some x" by (auto simp: stream_inv_def Let_def)
  show ?thesis
    using NextClosed n c x
    by (intro exI[of _ "Suc k"]) (simp add: replicate_append_same)
next
  case (Send v)
  with inv have "\<not> closed (stream sy)" by (simp add: stream_inv_def Let_def)
  with k have "k = 0" by simp
  with Send n show ?thesis by (intro exI[of _ 0]) simp
next
  case (RetSingle x)
  with inv have "\<not> closed (stream sy)" by (simp add: stream_inv_def Let_def)
  with k have "k = 0" by simp
  with RetSingle n show ?thesis by (intro exI[of _ 0]) simp
next
  case (CloseOk e)
  with k have "k = 0" by simp
  with CloseOk n show ?thesis by (intro exI[of _ 0]) simp
next
  case (ClosePanic e)
  with inv show ?thesis by (auto simp: stream_inv_def Let_def)
next
  case (RetPanic x)
  with inv show ?thesis by (auto simp: stream_inv_def Let_def)
next
  case (NextDone e)
  with na show ?thesis by simp
qed (use n k in \<open>intro exI[of _ k]; simp\<close>)+

lemma run_nexts:
  assumes "run (NewSys rq) tr = Some (es, sy)" and "NextCtxDone \<notin> set tr"
  shows "stream_inv sy \<and>
         (\<exists>k. nexts es = map (\<lambda>v. NextRet v None) (delivered es) @
                 replicate k (NextRet NilV (err (stream sy))) \<and>
              (0 < k \<longrightarrow> closed (stream sy)))"
  using assms
proof (induction rule: run_induct)
  case init
  then show ?case by (simp add: NewSys_inv)
next
  case (step es sy1 a es' sy2)
  then have inv: "stream_inv sy1" and na: "a \<noteq> NextCtxDone" by auto
  from step obtain k where
    "nexts es = map (\<lambda>v. NextRet v None) (delivered es) @
       replicate k (NextRet NilV (err (stream sy1)))" "0 < k \<longrightarrow> closed (stream sy1)"
    by auto
  from step_nexts[OF step.hyps(2) na inv this] step_inv[OF inv step.hyps(2)]
  show ?case by simp
qed

lemma not_emit_close:
  "\<not> is_emit_close a \<Longrightarrow> emitted1 a = []" "\<not> is_emit_close a \<Longrightarrow> \<not> is_close a"
  by (cases a; simp)+

lemma emitted_emits_closes: "emitted (emits_closes es) = emitted es"
  by (induction es) (auto simp: emits_closes_def not_emit_close)

lemma closes_emits_closes: "closes (emits_closes es) = closes es"
  by (induction es) (auto simp: emits_closes_def not_emit_close)

lemma emitted_rets: "emitted (map (\<lambda>v. EmitRet v None) vs @ [CloseRet e r]) = vs"
  by (induction vs) auto

lemma closes_rets: "closes (map (\<lambda>v. EmitRet v None) vs @ [CloseRet e r]) = [CloseRet e r]"
  by (induction vs) auto

lemma set_closes: "CloseRet e r \<in> set (closes es) = (CloseRet e r \<in> set es)"
  by (auto simp: closes_def)

lemma run_emits_then_close:
  assumes r: "run (NewSys rq) tr = Some (es, sy)" and nc: "NextCtxDone \<notin> set tr"
    and pe: "emits_closes es = map (\<lambda>v. EmitRet v None) vs @ [CloseRet e r]"
  shows "emitted es = vs \<and> closes es = [CloseRet e r] \<and>
         err (stream sy) = Some (case r of None \<Rightarrow> recorded e | Some x \<Rightarrow> EOF) \<and>
         (\<exists>k. nexts es = map (\<lambda>v. NextRet (unwrap v) None) vs @
                 replicate k (NextRet NilV (err (stream sy))))"
proof -
  have "emitted (emits_closes es) = vs" unfolding pe by (rule emitted_rets)
  then have em: "emitted es = vs" by (simp only: emitted_emits_closes)
  have "closes (emits_closes es) = [CloseRet e r]" unfolding pe by (rule closes_rets)
  then have cl: "closes es = [CloseRet e r]" by (simp only: closes_emits_closes)
  from run_err_closes[OF r] have inv: "stream_inv sy"
    and c0: "closes es \<noteq> [] \<longrightarrow> closed (stream sy)"
    and s: "\<forall>e. CloseRet e None \<in> set es \<longrightarrow> err (stream sy) = Some (recorded e)"
    and n0: "closed (stream sy) \<longrightarrow> err (stream sy) = Some EOF \<or> (\<exists>e. CloseRet e None \<in> set es)"
    by blast+
  from c0 cl have c: "closed (stream sy)" by simp
  have here: "CloseRet e r \<in> set es"
    using set_closes[of e r es] by (simp only: cl) simp
  have er: "err (stream sy) = Some (case r of None \<Rightarrow> recorded e | Some x \<Rightarrow> EOF)"
  proof (cases r)
    case None
    with here s show ?thesis by simp
  next
    case (Some x)
    have "\<not> (\<exists>e'. CloseRet e' None \<in> set es)"
    proof
      assume "\<exists>e'. CloseRet e' None \<in> set es"
      then obtain e' where "CloseRet e' None \<in> set es" ..
      then have "CloseRet e' None \<in> set (closes es)" by (simp only: set_closes)
      with cl Some show False by simp
    qed
    with n0 c Some show ?thesis by simp
  qed
  from inv_closed_idle[OF inv c] run_delivered[OF r] em
  have d: "delivered es = map unwrap vs" by simp
  from run_nexts[OF r nc] obtain k where
    "nexts es = map (\<lambda>v. NextRet v None) (delivered es) @
       replicate k (NextRet NilV (err (stream sy)))"
    by blast
  then have "nexts es = map (\<lambda>v. NextRet (unwrap v) None) vs @
       replicate k (NextRet NilV (err (stream sy)))"
    by (simp only: d map_map comp_def)
  then have "\<exists>k. nexts es = map (\<lambda>v. NextRet (unwrap v) None) vs @
                 replicate k (NextRet NilV (err (stream sy)))" ..
  with em cl er show ?thesis by (intro conjI)
qed

lemma emits_then_Close:
  assumes "run (NewSys rq) tr = Some (es, sy)" and "NextCtxDone \<notin> set tr"
    and "emits_closes es = map (\<lambda>v. EmitRet v None) vs @ [CloseRet None r]"
  shows "\<exists>k. nexts es = map (\<lambda>v. NextRet (unwrap v) None) vs @
               replicate k (NextRet NilV (Some EOF))"
  using run_emits_then_close[OF assms] by (cases r) auto

lemma unwrap_not_single: "\<not> is_single v \<Longrightarrow> unwrap v = v"
  by (cases v) auto

lemma emits_then_CloseWithError:
  assumes "run (NewSys rq) tr = Some (es, sy)" and "NextCtxDone \<notin> set tr"
    and "emits_closes es = map (\<lambda>v. EmitRet v None) vs @ [CloseRet (Some e) None]"
  shows "\<exists>k. nexts es = map (\<lambda>v. NextRet v None) vs @
               replicate k (NextRet NilV (Some (recorded (Some e))))"
proof -
  from run_emits_then_close[OF assms] obtain k where
    em: "emitted es = vs" and cl: "closes es = [CloseRet (Some e) None]"
    and n: "nexts es = map (\<lambda>v. NextRet (unwrap v) None) vs @
                 replicate k (NextRet NilV (Some (recorded (Some e))))"
    by auto
  from run_first_close_wins[OF assms(1)] cl em have "\<not> list_ex is_single vs"
    by (auto simp: first_close_wins_def split: if_splits)
  then have "map (\<lambda>v. NextRet (unwrap v) None) vs = map (\<lambda>v. NextRet v None) vs"
    by (auto simp: list_ex_iff unwrap_not_single)
  with n show ?thesis by auto
qed

lemma round_run:
  assumes "plain v" and "\<not> closed (stream sy)" and "ch (stream sy) = ChanOpen"
    and "emitter sy = NoEmit" and "receiver sy = NoNext"
    and "Context (req (stream sy)) = Some (Ctx None)"
  shows "run sy [CallNext, CallEmit v, SendRecv, EmitReturn] =
           Some ([NextRet v None, EmitRet v None],
                 sy\<lparr>stream := (stream sy)\<lparr>waitLen := ChanClosed\<rparr>\<rparr>)"
  using assms
  by (cases v; cases sy)
     (auto simp: next_call_def Emit_def AssertNotError_def send_recv_def emit_return_def)

lemma close_run:
  assumes "\<not> closed (stream sy)" and "ch (stream sy) = ChanOpen"
    and "emitter sy = NoEmit" and "receiver sy = NoNext"
  shows "run sy [CallCloseWithError e, CallNext, NextChClosed] =
           Some ([CloseRet e None, NextRet NilV (Some (recorded e))],
                 sy\<lparr>stream := (stream sy)\<lparr>closed := True, err := Some (recorded e),
                        ch := ChanClosed, waitLen := ChanClosed, closeCh := ChanClosed\<rparr>\<rparr>)"
  using assms
  by (cases sy)
     (auto simp: close_call_open next_call_def next_ch_closed_def)

lemma schedule_run:
  assumes "list_all plain vs" and "\<not> closed (stream sy)" and "ch (stream sy) = ChanOpen"
    and "emitter sy = NoEmit" and "receiver sy = NoNext"
    and "Context (req (stream sy)) = Some (Ctx None)"
  shows "run sy (schedule e vs) =
           Some (concat (map (\<lambda>v. [NextRet v None, EmitRet v None]) vs) @
                   [CloseRet e None, NextRet NilV (Some (recorded e))],
                 sy\<lparr>stream := (stream sy)\<lparr>closed := True, err := Some (recorded e),
                        ch := ChanClosed, waitLen := ChanClosed, closeCh := ChanClosed\<rparr>\<rparr>)"
  using assms
proof (induction vs arbitrary: sy)
  case Nil
  then show ?case using close_run[of sy e] by simp
next
  case (Cons v vs)
  let ?sy1 = "sy\<lparr>stream := (stream sy)\<lparr>waitLen := ChanClosed\<rparr>\<rparr>"
  from Cons.prems have r1: "run sy [CallNext, CallEmit v, SendRecv, EmitReturn] =
      Some ([NextRet v None, EmitRet v None], ?sy1)"
    by (intro round_run) simp_all
  from Cons.prems have r2: "run ?sy1 (schedule e vs) =
      Some (concat (map (\<lambda>v. [NextRet v None, EmitRet v None]) vs) @
              [CloseRet e None, NextRet NilV (Some (recorded e))],
            ?sy1\<lparr>stream := (stream ?sy1)\<lparr>closed := True, err := Some (recorded e),
                   ch := ChanClosed, waitLen := ChanClosed, closeCh := ChanClosed\<rparr>\<rparr>)"
    by (intro Cons.IH) simp_all
  have "run sy (schedule e (v # vs)) =
      run sy ([CallNext, CallEmit v, SendRecv, EmitReturn] @ schedule e vs)" by simp
  also have "\<dots> = Some ([NextRet v None, EmitRet v None] @
       (concat (map (\<lambda>v. [NextRet v None, EmitRet v None]) vs) @
              [CloseRet e None, NextRet NilV (Some (recorded e))]),
            ?sy1\<lparr>stream := (stream ?sy1)\<lparr>closed := True, err := Some (recorded e),
                   ch := ChanClosed, waitLen := ChanClosed, closeCh := ChanClosed\<rparr>\<rparr>)"
    by (simp only: run_append r1 r2 option.case prod.case)
  finally show ?case by simp
qed

lemma closed_next:
  assumes "stream_inv sy" and "closed (stream sy)"
  shows "(receiver sy = NoNext \<longrightarrow>
            run sy [CallNext, NextChClosed] = Some ([NextRet NilV (err (stream sy))], sy)) \<and>
         (receiver sy = Receiving \<longrightarrow>
            next_ch_closed sy = Some ([NextRet NilV (err (stream sy))], sy\<lparr>receiver := NoNext\<rparr>))"
proof -
  from assms have cl: "ch (stream sy) = ChanClosed" by (simp add: inv_closed_ch)
  then show ?thesis
    by (cases sy) (auto simp: next_call_def next_ch_closed_def)
qed

lemma emits_then_close_next:
  assumes r: "run (NewSys rq) tr = Some (es, sy)" and nc: "NextCtxDone \<notin> set tr"
    and pe: "emits_closes es = map (\<lambda>v. EmitRet v None) vs @ [CloseRet e r]"
  shows "(receiver sy = NoNext \<longrightarrow>
            run sy [CallNext, NextChClosed] =
              Some ([NextRet NilV (Some (case r of None \<Rightarrow> recorded e | Some x \<Rightarrow> EOF))], sy)) \<and>
         (receiver sy = Receiving \<longrightarrow>
            next_ch_closed sy =
              Some ([NextRet NilV (Some (case r of None \<Rightarrow> recorded e | Some x \<Rightarrow> EOF))],
                    sy\<lparr>receiver := NoNext\<rparr>))"
proof -
  from run_emits_then_close[OF r nc pe] have cl: "closes es = [CloseRet e r]"
    and er: "err (stream sy) = Some (case r of None \<Rightarrow> recorded e | Some x \<Rightarrow> EOF)"
    by blast+
  from run_err_closes[OF r] have inv: "stream_inv sy"
    and c0: "closes es \<noteq> [] \<longrightarrow> closed (stream sy)"
    by blast+
  from c0 cl have c: "closed (stream sy)" by simp
  from closed_next[OF inv c] show ?thesis by (simp only: er)
qed

lemma recorded_id: "\<not> is_struct_value (Some e) \<Longrightarrow> recorded (Some e) = e"
  by (cases e) simp_all

text \<open>
  After the cancellation: the context stays done and no \<^verbatim>\<open>Next\<close> returns a value; a
  call of \<^verbatim>\<open>Emit\<close> that waits stays as it is until it returns the context's error,
  and so does a call of \<^verbatim>\<open>Next\<close> that the cancellation woke.
\<close>

lemma emit_ends_append [simp]: "emit_ends (es @ es') = emit_ends es @ emit_ends es'"
  by (simp add: emit_ends_def)

lemma emit_ends_simps [simp]:
  "emit_ends [] = []" "emit_ends (e # es) = (if is_emit_end e then e # emit_ends es else emit_ends es)"
  by (simp_all add: emit_ends_def)

lemma step_cancelled:
  assumes "step a sy = Some (es', sy')" and "stream_inv sy"
    and "Context (req (stream sy)) = Some (Ctx (Some c))"
  shows "Context (req (stream sy')) = Some (Ctx (Some c)) \<and> delivered es' = []"
  using assms
  by (cases rule: step_cases) (auto simp: stream_inv_def Let_def)

lemma step_cancelled_emit:
  assumes "step a sy = Some (es', sy')" and "stream_inv sy"
    and "Context (req (stream sy)) = Some (Ctx (Some c))" and "emitter sy = Sending v"
  shows "emit_ends es' = [] \<and> emitter sy' = Sending v \<and> stream sy' = stream sy \<or>
         emit_ends es' = [EmitRet v (Some c)]"
  using assms
  by (cases rule: step_cases) (auto simp: stream_inv_def Let_def)

lemma step_cancelled_next:
  assumes "step a sy = Some (es', sy')"
    and "Context (req (stream sy)) = Some (Ctx (Some c))" and "receiver sy = Woken"
  shows "nexts es' = [] \<and> receiver sy' = Woken \<or> nexts es' = [NextRet NilV (Some c)]"
  using assms
  by (cases rule: step_cases) auto

lemma run_cancelled:
  assumes "run sy tr = Some (es, sy')" and "stream_inv sy"
    and "Context (req (stream sy)) = Some (Ctx (Some c))"
  shows "stream_inv sy' \<and> Context (req (stream sy')) = Some (Ctx (Some c)) \<and> delivered es = []"
  using assms
proof (induction rule: run_induct)
  case init
  then show ?case by simp
next
  case (step es sy1 a es' sy2)
  then show ?case
    using step_inv[of sy1 a es' sy2] step_cancelled[of a sy1 es' sy2 c] by simp
qed

lemma run_cancelled_emit:
  assumes "run sy tr = Some (es, sy')" and "stream_inv sy"
    and "Context (req (stream sy)) = Some (Ctx (Some c))" and "emitter sy = Sending v"
  shows "(stream_inv sy' \<and> Context (req (stream sy')) = Some (Ctx (Some c))) \<and>
         (emit_ends es = [] \<and> emitter sy' = Sending v \<and> stream sy' = stream sy \<or>
          (\<exists>rest. emit_ends es = EmitRet v (Some c) # rest))"
  using assms
proof (induction rule: run_induct)
  case init
  then show ?case by simp
next
  case (step es sy1 a es' sy2)
  then have inv: "stream_inv sy1" and c: "Context (req (stream sy1)) = Some (Ctx (Some c))"
    and d: "emit_ends es = [] \<and> emitter sy1 = Sending v \<and> stream sy1 = stream sy \<or>
          (\<exists>rest. emit_ends es = EmitRet v (Some c) # rest)"
    by simp_all
  from step_inv[OF inv step.hyps(2)] step_cancelled[OF step.hyps(2) inv c]
  have 1: "stream_inv sy2 \<and> Context (req (stream sy2)) = Some (Ctx (Some c))" by simp
  from d have 2: "emit_ends (es @ es') = [] \<and> emitter sy2 = Sending v \<and> stream sy2 = stream sy \<or>
          (\<exists>rest. emit_ends (es @ es') = EmitRet v (Some c) # rest)"
  proof
    assume w: "emit_ends es = [] \<and> emitter sy1 = Sending v \<and> stream sy1 = stream sy"
    then have "emitter sy1 = Sending v" by simp
    from step_cancelled_emit[OF step.hyps(2) inv c this] w show ?thesis by auto
  next
    assume "\<exists>rest. emit_ends es = EmitRet v (Some c) # rest"
    then show ?thesis by auto
  qed
  from 1 2 show ?case by (rule conjI)
qed

lemma run_cancelled_next:
  assumes "run sy tr = Some (es, sy')" and "stream_inv sy"
    and "Context (req (stream sy)) = Some (Ctx (Some c))" and "receiver sy = Woken"
  shows "(stream_inv sy' \<and> Context (req (stream sy')) = Some (Ctx (Some c))) \<and>
         (nexts es = [] \<and> receiver sy' = Woken \<or>
          (\<exists>rest. nexts es = NextRet NilV (Some c) # rest))"
  using assms
proof (induction rule: run_induct)
  case init
  then show ?case by simp
next
  case (step es sy1 a es' sy2)
  then have inv: "stream_inv sy1" and c: "Context (req (stream sy1)) = Some (Ctx (Some c))"
    and d: "nexts es = [] \<and> receiver sy1 = Woken \<or>
          (\<exists>rest. nexts es = NextRet NilV (Some c) # rest)"
    by simp_all
  from step_inv[OF inv step.hyps(2)] step_cancelled[OF step.hyps(2) inv c]
  have 1: "stream_inv sy2 \<and> Context (req (stream sy2)) = Some (Ctx (Some c))" by simp
  from d have 2: "nexts (es @ es') = [] \<and> receiver sy2 = Woken \<or>
          (\<exists>rest. nexts (es @ es') = NextRet NilV (Some c) # rest)"
  proof
    assume w: "nexts es = [] \<and> receiver sy1 = Woken"
    then have "receiver sy1 = Woken" by simp
    from step_cancelled_next[OF step.hyps(2) c this] w show ?thesis by auto
  next
    assume "\<exists>rest. nexts es = NextRet NilV (Some c) # rest"
    then show ?thesis by auto
  qed
  from 1 2 show ?case by (rule conjI)
qed

lemma cancelled_inv:
  "stream_inv sy \<Longrightarrow>
   stream_inv (sy\<lparr>stream := (stream sy)\<lparr>req := (req (stream sy))\<lparr>Context := Some (Ctx (Some c))\<rparr>\<rparr>, receiver := r\<rparr>)"
  by (auto simp: stream_inv_def Let_def split: emitter.splits)

lemma cancelled_inv':
  "stream_inv sy \<Longrightarrow>
   stream_inv (sy\<lparr>stream := (stream sy)\<lparr>req := (req (stream sy))\<lparr>Context := Some (Ctx (Some c))\<rparr>\<rparr>\<rparr>)"
  by (auto simp: stream_inv_def Let_def split: emitter.splits)

section \<open>The claims\<close>

subsection \<open>C1\<close>

text \<open>
  C1, as stated, fails in two ways. After \<^verbatim>\<open>Emit(Single{5})\<close> and \<^verbatim>\<open>Close()\<close> the
  first \<^verbatim>\<open>Next\<close> returns 5, not the emitted marker. And when the context is cancelled
  after \<^verbatim>\<open>Close()\<close>, the \<^verbatim>\<open>select\<close> of the next \<^verbatim>\<open>Next\<close> may take the case of
  the context: it returns the cancellation error, not the end of the stream.
\<close>

theorem C1_counterexample:
  "run (NewSys \<lparr>Context = Some (Ctx None)\<rparr> :: nat sys)
      [CallNext, CallEmit (Single (Val 5)), SendRecv, EmitReturn, CallClose, CallNext, NextChClosed]
   = Some ([NextRet (Val 5) None, EmitRet (Single (Val 5)) None,
            CloseRet None (Some ErrClosingClosedEmitter), NextRet NilV (Some EOF)],
        \<lparr>stream = \<lparr>req = \<lparr>Context = Some (Ctx None)\<rparr>, ch = ChanClosed, closed = True,
           closeCh = ChanClosed, err = Some EOF, waitLen = ChanClosed, length_u64 = 0\<rparr>,
         emitter = NoEmit, receiver = NoNext\<rparr>)
   \<and> Val (5::nat) \<noteq> Single (Val 5)
   \<and> run (NewSys \<lparr>Context = Some (Ctx None)\<rparr> :: nat sys)
      [CallNext, CallEmit (Val 1), SendRecv, EmitReturn, CallClose, CancelCtx Canceled,
       CallNext, NextCtxDone]
   = Some ([NextRet (Val 1) None, EmitRet (Val 1) None, CloseRet None None,
            NextRet NilV (Some Canceled)],
        \<lparr>stream = \<lparr>req = \<lparr>Context = Some (Ctx (Some Canceled))\<rparr>, ch = ChanClosed,
           closed = True, closeCh = ChanClosed, err = Some EOF, waitLen = ChanClosed,
           length_u64 = 0\<rparr>,
         emitter = NoEmit, receiver = NoNext\<rparr>)"
  by (simp add: run_eval)

text \<open>
  C1, amended. In every run of a fresh stream in which no call of \<^verbatim>\<open>Next\<close> returns by
  cancellation, and in which the producer's calls of \<^verbatim>\<open>Emit\<close> and \<^verbatim>\<open>Close\<close> are
  \<^verbatim>\<open>Emit(v1)\<close> .. \<^verbatim>\<open>Emit(vN)\<close>, with values that are not channels and each returning
  nil, followed by \<^verbatim>\<open>Close()\<close>: the calls of \<^verbatim>\<open>Next\<close> returned \<open>v1 .. vN\<close> in this
  order, a single-value marker as the value it wraps, and every call after these
  returned \<^verbatim>\<open>io.EOF\<close> and no value; and in the state the run has reached, a call
  of \<^verbatim>\<open>Next\<close> does return: a new call, or the one that waits, returns \<^verbatim>\<open>io.EOF\<close>.
  (\<^verbatim>\<open>Emit\<close> hands a channel to \<^verbatim>\<open>EmitChan\<close> before anything else: the consumer then
  gets what \<^verbatim>\<open>EmitChan\<close> forwards, not the channel. Such a call shows as
  \<open>EmitChanCall\<close>, not as a return of \<^verbatim>\<open>Emit\<close>, and the runs of this theorem have
  none.) Such runs exist for every list of plain values on a request whose context is
  not done: under the schedule where the consumer asks first, all \<open>N + 1\<close> calls of
  \<^verbatim>\<open>Next\<close> return. (\<^verbatim>\<open>Close()\<close> is \<^verbatim>\<open>CloseWithError(nil)\<close>.)
\<close>

theorem C1_in_order:
  "(run (NewSys rq) tr = Some (es, sy) \<and> NextCtxDone \<notin> set tr \<and>
    emits_closes es = map (\<lambda>v. EmitRet v None) vs @ [CloseRet None r] \<longrightarrow>
      (\<exists>k. nexts es = map (\<lambda>v. NextRet (unwrap v) None) vs @
              replicate k (NextRet NilV (Some EOF))) \<and>
      (receiver sy = NoNext \<longrightarrow>
         run sy [CallNext, NextChClosed] = Some ([NextRet NilV (Some EOF)], sy)) \<and>
      (receiver sy = Receiving \<longrightarrow>
         next_ch_closed sy = Some ([NextRet NilV (Some EOF)], sy\<lparr>receiver := NoNext\<rparr>))) \<and>
   (list_all plain ws \<and> Context rq = Some (Ctx None) \<longrightarrow>
      run (NewSys rq) (schedule None ws) =
        Some (concat (map (\<lambda>v. [NextRet v None, EmitRet v None]) ws) @
                [CloseRet None None, NextRet NilV (Some EOF)],
              \<lparr>stream = (NewChanResponsePair rq)\<lparr>closed := True, err := Some EOF,
                  ch := ChanClosed, waitLen := ChanClosed, closeCh := ChanClosed\<rparr>,
               emitter = NoEmit, receiver = NoNext\<rparr>))"
proof (intro conjI impI)
  assume a: "run (NewSys rq) tr = Some (es, sy) \<and> NextCtxDone \<notin> set tr \<and>
    emits_closes es = map (\<lambda>v. EmitRet v None) vs @ [CloseRet None r]"
  then show "\<exists>k. nexts es = map (\<lambda>v. NextRet (unwrap v) None) vs @
              replicate k (NextRet NilV (Some EOF))"
    using emits_then_Close[of rq tr es sy vs r] by blast
  have e: "(case r of None \<Rightarrow> recorded None | Some x \<Rightarrow> EOF) = EOF"
    by (cases r) simp_all
  from a have n: "(receiver sy = NoNext \<longrightarrow>
         run sy [CallNext, NextChClosed] = Some ([NextRet NilV (Some EOF)], sy)) \<and>
      (receiver sy = Receiving \<longrightarrow>
         next_ch_closed sy = Some ([NextRet NilV (Some EOF)], sy\<lparr>receiver := NoNext\<rparr>))"
    using emits_then_close_next[of rq tr es sy vs None r] by (simp only: e) blast
  {
    assume "receiver sy = NoNext"
    with n show "run sy [CallNext, NextChClosed] = Some ([NextRet NilV (Some EOF)], sy)"
      by blast
  }
  {
    assume "receiver sy = Receiving"
    with n show "next_ch_closed sy = Some ([NextRet NilV (Some EOF)], sy\<lparr>receiver := NoNext\<rparr>)"
      by blast
  }
next
  assume a: "list_all plain ws \<and> Context rq = Some (Ctx None)"
  then have "run (NewSys rq) (schedule None ws) =
      Some (concat (map (\<lambda>v. [NextRet v None, EmitRet v None]) ws) @
              [CloseRet None None, NextRet NilV (Some (recorded None))],
            (NewSys rq)\<lparr>stream := (stream (NewSys rq))\<lparr>closed := True, err := Some (recorded None),
                   ch := ChanClosed, waitLen := ChanClosed, closeCh := ChanClosed\<rparr>\<rparr>)"
    using schedule_run[of ws "NewSys rq" None] by (simp add: NewSys_def NewChanResponsePair_def)
  then show "run (NewSys rq) (schedule None ws) =
        Some (concat (map (\<lambda>v. [NextRet v None, EmitRet v None]) ws) @
                [CloseRet None None, NextRet NilV (Some EOF)],
              \<lparr>stream = (NewChanResponsePair rq)\<lparr>closed := True, err := Some EOF,
                  ch := ChanClosed, waitLen := ChanClosed, closeCh := ChanClosed\<rparr>,
               emitter = NoEmit, receiver = NoNext\<rparr>)"
    by (simp add: NewSys_def)
qed

theorem C1_witness:
  "next_ch_closed
        \<lparr>stream = \<lparr>req = \<lparr>Context = Some (Ctx None)\<rparr>, ch = ChanClosed, closed = True,
           closeCh = ChanClosed, err = Some EOF, waitLen = ChanClosed, length_u64 = 0\<rparr>,
         emitter = NoEmit, receiver = Receiving\<rparr>
     = Some ([NextRet NilV (Some EOF) :: nat event],
        \<lparr>stream = \<lparr>req = \<lparr>Context = Some (Ctx None)\<rparr>, ch = ChanClosed, closed = True,
           closeCh = ChanClosed, err = Some EOF, waitLen = ChanClosed, length_u64 = 0\<rparr>,
         emitter = NoEmit, receiver = NoNext\<rparr>)
   \<and> (\<exists>k. nexts [NextRet (Val (1::nat)) None, EmitRet (Val 1) None,
              NextRet (Single (Val 2)) None, EmitRet (Single (Single (Val 2))) None,
              CloseRet None (Some ErrClosingClosedEmitter), NextRet NilV (Some EOF)]
         = map (\<lambda>v. NextRet (unwrap v) None) [Val 1, Single (Single (Val 2))] @
             replicate k (NextRet NilV (Some EOF)))
   \<and> run
        \<lparr>stream = \<lparr>req = \<lparr>Context = Some (Ctx None)\<rparr>, ch = ChanClosed, closed = True,
           closeCh = ChanClosed, err = Some EOF, waitLen = ChanClosed, length_u64 = 0\<rparr>,
         emitter = NoEmit, receiver = NoNext\<rparr>
        [CallNext, NextChClosed]
     = Some ([NextRet NilV (Some EOF) :: nat event],
        \<lparr>stream = \<lparr>req = \<lparr>Context = Some (Ctx None)\<rparr>, ch = ChanClosed, closed = True,
           closeCh = ChanClosed, err = Some EOF, waitLen = ChanClosed, length_u64 = 0\<rparr>,
         emitter = NoEmit, receiver = NoNext\<rparr>)
   \<and> run (NewSys \<lparr>Context = Some (Ctx None)\<rparr> :: nat sys) (schedule None [Val 1, NilV, Val 3])
     = Some ([NextRet (Val 1) None, EmitRet (Val 1) None, NextRet NilV None, EmitRet NilV None,
              NextRet (Val 3) None, EmitRet (Val 3) None,
              CloseRet None None, NextRet NilV (Some EOF)],
        \<lparr>stream = \<lparr>req = \<lparr>Context = Some (Ctx None)\<rparr>, ch = ChanClosed, closed = True,
           closeCh = ChanClosed, err = Some EOF, waitLen = ChanClosed, length_u64 = 0\<rparr>,
         emitter = NoEmit, receiver = NoNext\<rparr>)"
proof -
  have r: "run (NewSys \<lparr>Context = Some (Ctx None)\<rparr> :: nat sys)
      [CallNext, CallEmit (Val 1), SendRecv, EmitReturn, CallNext,
       CallEmit (Single (Single (Val 2))), SendRecv, EmitReturn, CallClose, CallNext, NextChClosed]
     = Some ([NextRet (Val 1) None, EmitRet (Val 1) None,
              NextRet (Single (Val 2)) None, EmitRet (Single (Single (Val 2))) None,
              CloseRet None (Some ErrClosingClosedEmitter), NextRet NilV (Some EOF)],
        \<lparr>stream = \<lparr>req = \<lparr>Context = Some (Ctx None)\<rparr>, ch = ChanClosed, closed = True,
           closeCh = ChanClosed, err = Some EOF, waitLen = ChanClosed, length_u64 = 0\<rparr>,
         emitter = NoEmit, receiver = NoNext\<rparr>)"
    by (simp add: run_eval)
  have h: "(NextCtxDone :: nat action) \<notin> set [CallNext, CallEmit (Val 1), SendRecv, EmitReturn,
     CallNext, CallEmit (Single (Single (Val 2))), SendRecv, EmitReturn, CallClose, CallNext,
     NextChClosed]"
    by simp
  have pe: "emits_closes [NextRet (Val (1::nat)) None, EmitRet (Val 1) None,
            NextRet (Single (Val 2)) None, EmitRet (Single (Single (Val 2))) None,
            CloseRet None (Some ErrClosingClosedEmitter), NextRet NilV (Some EOF)]
      = map (\<lambda>v. EmitRet v None) [Val 1, Single (Single (Val 2))] @
          [CloseRet None (Some ErrClosingClosedEmitter)]"
    by (simp add: emits_closes_def)
  note t = C1_in_order[THEN conjunct1, rule_format, OF conjI[OF r conjI[OF h pe]]]
  from t have 1: "\<exists>k. nexts [NextRet (Val (1::nat)) None, EmitRet (Val 1) None,
              NextRet (Single (Val 2)) None, EmitRet (Single (Single (Val 2))) None,
              CloseRet None (Some ErrClosingClosedEmitter), NextRet NilV (Some EOF)]
         = map (\<lambda>v. NextRet (unwrap v) None) [Val 1, Single (Single (Val 2))] @
             replicate k (NextRet NilV (Some EOF))"
    by (rule conjunct1)
  from t have 2: "run
        \<lparr>stream = \<lparr>req = \<lparr>Context = Some (Ctx None)\<rparr>, ch = ChanClosed, closed = True,
           closeCh = ChanClosed, err = Some EOF, waitLen = ChanClosed, length_u64 = 0\<rparr>,
         emitter = NoEmit, receiver = NoNext\<rparr>
        [CallNext, NextChClosed]
     = Some ([NextRet NilV (Some EOF) :: nat event],
        \<lparr>stream = \<lparr>req = \<lparr>Context = Some (Ctx None)\<rparr>, ch = ChanClosed, closed = True,
           closeCh = ChanClosed, err = Some EOF, waitLen = ChanClosed, length_u64 = 0\<rparr>,
         emitter = NoEmit, receiver = NoNext\<rparr>)"
    by simp
  have 3: "run (NewSys \<lparr>Context = Some (Ctx None)\<rparr> :: nat sys) (schedule None [Val 1, NilV, Val 3])
     = Some ([NextRet (Val 1) None, EmitRet (Val 1) None, NextRet NilV None, EmitRet NilV None,
              NextRet (Val 3) None, EmitRet (Val 3) None,
              CloseRet None None, NextRet NilV (Some EOF)],
        \<lparr>stream = \<lparr>req = \<lparr>Context = Some (Ctx None)\<rparr>, ch = ChanClosed, closed = True,
           closeCh = ChanClosed, err = Some EOF, waitLen = ChanClosed, length_u64 = 0\<rparr>,
         emitter = NoEmit, receiver = NoNext\<rparr>)"
    using C1_in_order[where rq = "\<lparr>Context = Some (Ctx None)\<rparr>"
        and ws = "[Val (1::nat), NilV, Val 3]", THEN conjunct2]
    by (simp add: NewChanResponsePair_def)
  have r': "run (NewSys \<lparr>Context = Some (Ctx None)\<rparr> :: nat sys)
      [CallNext, CallEmit (Val 1), SendRecv, EmitReturn, CallClose, CallNext]
     = Some ([NextRet (Val 1) None, EmitRet (Val 1) None, CloseRet None None],
        \<lparr>stream = \<lparr>req = \<lparr>Context = Some (Ctx None)\<rparr>, ch = ChanClosed, closed = True,
           closeCh = ChanClosed, err = Some EOF, waitLen = ChanClosed, length_u64 = 0\<rparr>,
         emitter = NoEmit, receiver = Receiving\<rparr>)"
    by (simp add: run_eval)
  have h': "(NextCtxDone :: nat action) \<notin> set [CallNext, CallEmit (Val 1), SendRecv, EmitReturn,
     CallClose, CallNext]"
    by simp
  have pe': "emits_closes [NextRet (Val (1::nat)) None, EmitRet (Val 1) None, CloseRet None None]
      = map (\<lambda>v. EmitRet v None) [Val 1] @ [CloseRet None None]"
    by (simp add: emits_closes_def)
  from C1_in_order[THEN conjunct1, rule_format, OF conjI[OF r' conjI[OF h' pe']]]
  have 0: "next_ch_closed
        \<lparr>stream = \<lparr>req = \<lparr>Context = Some (Ctx None)\<rparr>, ch = ChanClosed, closed = True,
           closeCh = ChanClosed, err = Some EOF, waitLen = ChanClosed, length_u64 = 0\<rparr>,
         emitter = NoEmit, receiver = Receiving\<rparr>
     = Some ([NextRet NilV (Some EOF) :: nat event],
        \<lparr>stream = \<lparr>req = \<lparr>Context = Some (Ctx None)\<rparr>, ch = ChanClosed, closed = True,
           closeCh = ChanClosed, err = Some EOF, waitLen = ChanClosed, length_u64 = 0\<rparr>,
         emitter = NoEmit, receiver = NoNext\<rparr>)"
    by simp
  from 0 1 2 3 show ?thesis by (intro conjI)
qed

subsection \<open>C2\<close>

text \<open>
  C2, as stated, fails in three ways. After \<^verbatim>\<open>Emit(Single{5})\<close> the stream is closed,
  so \<^verbatim>\<open>CloseWithError(e)\<close> fails and the second \<^verbatim>\<open>Next\<close> returns \<^verbatim>\<open>io.EOF\<close>, not
  \<open>e\<close>. A \<^verbatim>\<open>cmdkit.Error\<close> passed by value is recorded, and returned by
  \<^verbatim>\<open>Next\<close>, as a pointer to a copy: an error of another dynamic type. And when the
  context is cancelled after \<^verbatim>\<open>CloseWithError(e)\<close>, the \<^verbatim>\<open>select\<close> of the next
  \<^verbatim>\<open>Next\<close> may take the case of the context: it returns the cancellation error, not
  \<open>e\<close>.
\<close>

theorem C2_counterexample:
  "run (NewSys \<lparr>Context = Some (Ctx None)\<rparr> :: nat sys)
      [CallNext, CallEmit (Single (Val 5)), SendRecv, EmitReturn,
       CallCloseWithError (Some (ErrorString ''boom'')), CallNext, NextChClosed]
   = Some ([NextRet (Val 5) None, EmitRet (Single (Val 5)) None,
            CloseRet (Some (ErrorString ''boom'')) (Some ErrClosingClosedEmitter),
            NextRet NilV (Some EOF)],
        \<lparr>stream = \<lparr>req = \<lparr>Context = Some (Ctx None)\<rparr>, ch = ChanClosed, closed = True,
           closeCh = ChanClosed, err = Some EOF, waitLen = ChanClosed, length_u64 = 0\<rparr>,
         emitter = NoEmit, receiver = NoNext\<rparr>)
   \<and> EOF \<noteq> ErrorString ''boom''
   \<and> run (NewSys \<lparr>Context = Some (Ctx None)\<rparr> :: nat sys)
      [CallCloseWithError (Some (CmdkitErrorV \<lparr>Message = ''gone'', Code = 3\<rparr>)),
       CallNext, NextChClosed]
   = Some ([CloseRet (Some (CmdkitErrorV \<lparr>Message = ''gone'', Code = 3\<rparr>)) None,
            NextRet NilV (Some (CmdkitErrorP \<lparr>Message = ''gone'', Code = 3\<rparr>))],
        \<lparr>stream = \<lparr>req = \<lparr>Context = Some (Ctx None)\<rparr>, ch = ChanClosed, closed = True,
           closeCh = ChanClosed, err = Some (CmdkitErrorP \<lparr>Message = ''gone'', Code = 3\<rparr>),
           waitLen = ChanClosed, length_u64 = 0\<rparr>,
         emitter = NoEmit, receiver = NoNext\<rparr>)
   \<and> CmdkitErrorP \<lparr>Message = ''gone'', Code = 3\<rparr> \<noteq> CmdkitErrorV \<lparr>Message = ''gone'', Code = 3\<rparr>
   \<and> run (NewSys \<lparr>Context = Some (Ctx None)\<rparr> :: nat sys)
      [CallCloseWithError (Some (ErrorString ''boom'')), CancelCtx Canceled,
       CallNext, NextCtxDone]
   = Some ([CloseRet (Some (ErrorString ''boom'')) None, NextRet NilV (Some Canceled)],
        \<lparr>stream = \<lparr>req = \<lparr>Context = Some (Ctx (Some Canceled))\<rparr>, ch = ChanClosed,
           closed = True, closeCh = ChanClosed, err = Some (ErrorString ''boom''),
           waitLen = ChanClosed, length_u64 = 0\<rparr>,
         emitter = NoEmit, receiver = NoNext\<rparr>)
   \<and> Canceled \<noteq> ErrorString ''boom''"
  by (simp add: run_eval)

text \<open>
  C2, amended. In every run of a fresh stream in which no call of \<^verbatim>\<open>Next\<close> returns by
  cancellation, and in which the producer's calls of \<^verbatim>\<open>Emit\<close> and \<^verbatim>\<open>CloseWithError\<close>
  are \<open>N \<ge> 0\<close> calls of \<^verbatim>\<open>Emit\<close>, with values that are not channels and each
  returning nil, followed by a \<^verbatim>\<open>CloseWithError(e)\<close> that returns nil (\<open>e\<close> not nil):
  the first \<open>N\<close> calls of \<^verbatim>\<open>Next\<close> returned the emitted values in order, and every
  call after these returned the recorded terminal error and no value; and in the state
  the run has reached, a call of \<^verbatim>\<open>Next\<close> does return: a new call, or the one that
  waits, returns the recorded error. The recorded
  error is \<open>e\<close> itself, except that a \<^verbatim>\<open>cmdkit.Error\<close> passed by value is recorded as
  a pointer to it. (\<^verbatim>\<open>Emit\<close> hands a channel to \<^verbatim>\<open>EmitChan\<close> before anything else: the
  consumer then gets what \<^verbatim>\<open>EmitChan\<close> forwards, not the channel. Such a call shows as
  \<open>EmitChanCall\<close>, not as a return of \<^verbatim>\<open>Emit\<close>, and the runs of this theorem have
  none.) Such runs exist for every list of plain values on a request whose context is
  not done.
\<close>

theorem C2_terminal_error:
  "(run (NewSys rq) tr = Some (es, sy) \<and> NextCtxDone \<notin> set tr \<and>
    emits_closes es = map (\<lambda>v. EmitRet v None) vs @ [CloseRet (Some e) None] \<longrightarrow>
      (\<exists>k. nexts es = map (\<lambda>v. NextRet v None) vs @
              replicate k (NextRet NilV (Some (recorded (Some e))))) \<and>
      (receiver sy = NoNext \<longrightarrow>
         run sy [CallNext, NextChClosed] =
           Some ([NextRet NilV (Some (recorded (Some e)))], sy)) \<and>
      (receiver sy = Receiving \<longrightarrow>
         next_ch_closed sy =
           Some ([NextRet NilV (Some (recorded (Some e)))], sy\<lparr>receiver := NoNext\<rparr>))) \<and>
   (\<not> is_struct_value (Some e) \<longrightarrow> recorded (Some e) = e) \<and>
   (list_all plain ws \<and> Context rq = Some (Ctx None) \<longrightarrow>
      run (NewSys rq) (schedule (Some e) ws) =
        Some (concat (map (\<lambda>v. [NextRet v None, EmitRet v None]) ws) @
                [CloseRet (Some e) None, NextRet NilV (Some (recorded (Some e)))],
              \<lparr>stream = (NewChanResponsePair rq)\<lparr>closed := True,
                  err := Some (recorded (Some e)),
                  ch := ChanClosed, waitLen := ChanClosed, closeCh := ChanClosed\<rparr>,
               emitter = NoEmit, receiver = NoNext\<rparr>))"
proof (intro conjI impI)
  assume a: "run (NewSys rq) tr = Some (es, sy) \<and> NextCtxDone \<notin> set tr \<and>
    emits_closes es = map (\<lambda>v. EmitRet v None) vs @ [CloseRet (Some e) None]"
  then show "\<exists>k. nexts es = map (\<lambda>v. NextRet v None) vs @
              replicate k (NextRet NilV (Some (recorded (Some e))))"
    using emits_then_CloseWithError[of rq tr es sy vs e] by blast
  from a have n: "(receiver sy = NoNext \<longrightarrow>
         run sy [CallNext, NextChClosed] =
           Some ([NextRet NilV (Some (recorded (Some e)))], sy)) \<and>
      (receiver sy = Receiving \<longrightarrow>
         next_ch_closed sy =
           Some ([NextRet NilV (Some (recorded (Some e)))], sy\<lparr>receiver := NoNext\<rparr>))"
    using emits_then_close_next[of rq tr es sy vs "Some e" None] by (simp only: option.case) blast
  {
    assume "receiver sy = NoNext"
    with n show "run sy [CallNext, NextChClosed] =
           Some ([NextRet NilV (Some (recorded (Some e)))], sy)"
      by blast
  }
  {
    assume "receiver sy = Receiving"
    with n show "next_ch_closed sy =
           Some ([NextRet NilV (Some (recorded (Some e)))], sy\<lparr>receiver := NoNext\<rparr>)"
      by blast
  }
next
  assume "\<not> is_struct_value (Some e)"
  then show "recorded (Some e) = e" by (rule recorded_id)
next
  assume a: "list_all plain ws \<and> Context rq = Some (Ctx None)"
  then have "run (NewSys rq) (schedule (Some e) ws) =
      Some (concat (map (\<lambda>v. [NextRet v None, EmitRet v None]) ws) @
              [CloseRet (Some e) None, NextRet NilV (Some (recorded (Some e)))],
            (NewSys rq)\<lparr>stream := (stream (NewSys rq))\<lparr>closed := True,
                   err := Some (recorded (Some e)),
                   ch := ChanClosed, waitLen := ChanClosed, closeCh := ChanClosed\<rparr>\<rparr>)"
    using schedule_run[of ws "NewSys rq" "Some e"]
    by (simp add: NewSys_def NewChanResponsePair_def)
  then show "run (NewSys rq) (schedule (Some e) ws) =
        Some (concat (map (\<lambda>v. [NextRet v None, EmitRet v None]) ws) @
                [CloseRet (Some e) None, NextRet NilV (Some (recorded (Some e)))],
              \<lparr>stream = (NewChanResponsePair rq)\<lparr>closed := True,
                  err := Some (recorded (Some e)),
                  ch := ChanClosed, waitLen := ChanClosed, closeCh := ChanClosed\<rparr>,
               emitter = NoEmit, receiver = NoNext\<rparr>)"
    by (simp add: NewSys_def)
qed

theorem C2_witness:
  "next_ch_closed
        \<lparr>stream = \<lparr>req = \<lparr>Context = Some (Ctx None)\<rparr>, ch = ChanClosed, closed = True,
           closeCh = ChanClosed, err = Some (CmdkitErrorP \<lparr>Message = ''gone'', Code = 3\<rparr>), waitLen = ChanClosed, length_u64 = 0\<rparr>,
         emitter = NoEmit, receiver = Receiving\<rparr>
     = Some ([NextRet NilV (Some (CmdkitErrorP \<lparr>Message = ''gone'', Code = 3\<rparr>)) :: nat event],
        \<lparr>stream = \<lparr>req = \<lparr>Context = Some (Ctx None)\<rparr>, ch = ChanClosed, closed = True,
           closeCh = ChanClosed, err = Some (CmdkitErrorP \<lparr>Message = ''gone'', Code = 3\<rparr>), waitLen = ChanClosed, length_u64 = 0\<rparr>,
         emitter = NoEmit, receiver = NoNext\<rparr>)
   \<and> (\<exists>k. nexts [NextRet (Val (1::nat)) None, EmitRet (Val 1) None,
              CloseRet (Some (CmdkitErrorV \<lparr>Message = ''gone'', Code = 3\<rparr>)) None,
              NextRet NilV (Some (CmdkitErrorP \<lparr>Message = ''gone'', Code = 3\<rparr>)),
              NextRet NilV (Some (CmdkitErrorP \<lparr>Message = ''gone'', Code = 3\<rparr>))]
         = map (\<lambda>v. NextRet v None) [Val 1] @
             replicate k (NextRet NilV (Some (CmdkitErrorP \<lparr>Message = ''gone'', Code = 3\<rparr>))))
   \<and> run
        \<lparr>stream = \<lparr>req = \<lparr>Context = Some (Ctx None)\<rparr>, ch = ChanClosed, closed = True,
           closeCh = ChanClosed, err = Some (CmdkitErrorP \<lparr>Message = ''gone'', Code = 3\<rparr>),
           waitLen = ChanClosed, length_u64 = 0\<rparr>,
         emitter = NoEmit, receiver = NoNext\<rparr>
        [CallNext, NextChClosed]
     = Some ([NextRet NilV (Some (CmdkitErrorP \<lparr>Message = ''gone'', Code = 3\<rparr>)) :: nat event],
        \<lparr>stream = \<lparr>req = \<lparr>Context = Some (Ctx None)\<rparr>, ch = ChanClosed, closed = True,
           closeCh = ChanClosed, err = Some (CmdkitErrorP \<lparr>Message = ''gone'', Code = 3\<rparr>),
           waitLen = ChanClosed, length_u64 = 0\<rparr>,
         emitter = NoEmit, receiver = NoNext\<rparr>)
   \<and> recorded (Some (ErrorString ''boom'')) = ErrorString ''boom''
   \<and> run (NewSys \<lparr>Context = Some (Ctx None)\<rparr> :: nat sys)
        (schedule (Some (ErrorString ''boom'')) [Val 1, Val 2])
     = Some ([NextRet (Val 1) None, EmitRet (Val 1) None, NextRet (Val 2) None,
              EmitRet (Val 2) None, CloseRet (Some (ErrorString ''boom'')) None,
              NextRet NilV (Some (ErrorString ''boom''))],
        \<lparr>stream = \<lparr>req = \<lparr>Context = Some (Ctx None)\<rparr>, ch = ChanClosed, closed = True,
           closeCh = ChanClosed, err = Some (ErrorString ''boom''), waitLen = ChanClosed,
           length_u64 = 0\<rparr>,
         emitter = NoEmit, receiver = NoNext\<rparr>)"
proof -
  have r: "run (NewSys \<lparr>Context = Some (Ctx None)\<rparr> :: nat sys)
      [CallNext, CallEmit (Val 1), SendRecv, EmitReturn,
       CallCloseWithError (Some (CmdkitErrorV \<lparr>Message = ''gone'', Code = 3\<rparr>)),
       CallNext, NextChClosed, CallNext, NextChClosed]
     = Some ([NextRet (Val 1) None, EmitRet (Val 1) None,
              CloseRet (Some (CmdkitErrorV \<lparr>Message = ''gone'', Code = 3\<rparr>)) None,
              NextRet NilV (Some (CmdkitErrorP \<lparr>Message = ''gone'', Code = 3\<rparr>)),
              NextRet NilV (Some (CmdkitErrorP \<lparr>Message = ''gone'', Code = 3\<rparr>))],
        \<lparr>stream = \<lparr>req = \<lparr>Context = Some (Ctx None)\<rparr>, ch = ChanClosed, closed = True,
           closeCh = ChanClosed, err = Some (CmdkitErrorP \<lparr>Message = ''gone'', Code = 3\<rparr>),
           waitLen = ChanClosed, length_u64 = 0\<rparr>,
         emitter = NoEmit, receiver = NoNext\<rparr>)"
    by (simp add: run_eval)
  have h: "(NextCtxDone :: nat action) \<notin> set [CallNext, CallEmit (Val 1), SendRecv, EmitReturn,
       CallCloseWithError (Some (CmdkitErrorV \<lparr>Message = ''gone'', Code = 3\<rparr>)),
       CallNext, NextChClosed, CallNext, NextChClosed]"
    by simp
  have pe: "emits_closes [NextRet (Val (1::nat)) None, EmitRet (Val 1) None,
              CloseRet (Some (CmdkitErrorV \<lparr>Message = ''gone'', Code = 3\<rparr>)) None,
              NextRet NilV (Some (CmdkitErrorP \<lparr>Message = ''gone'', Code = 3\<rparr>)),
              NextRet NilV (Some (CmdkitErrorP \<lparr>Message = ''gone'', Code = 3\<rparr>))]
      = map (\<lambda>v. EmitRet v None) [Val 1] @
          [CloseRet (Some (CmdkitErrorV \<lparr>Message = ''gone'', Code = 3\<rparr>)) None]"
    by (simp add: emits_closes_def)
  note t = C2_terminal_error[THEN conjunct1, rule_format, OF conjI[OF r conjI[OF h pe]]]
  from t have 1: "\<exists>k. nexts [NextRet (Val (1::nat)) None, EmitRet (Val 1) None,
              CloseRet (Some (CmdkitErrorV \<lparr>Message = ''gone'', Code = 3\<rparr>)) None,
              NextRet NilV (Some (CmdkitErrorP \<lparr>Message = ''gone'', Code = 3\<rparr>)),
              NextRet NilV (Some (CmdkitErrorP \<lparr>Message = ''gone'', Code = 3\<rparr>))]
         = map (\<lambda>v. NextRet v None) [Val 1] @
             replicate k (NextRet NilV (Some (CmdkitErrorP \<lparr>Message = ''gone'', Code = 3\<rparr>)))"
    by simp
  from t have 2: "run
        \<lparr>stream = \<lparr>req = \<lparr>Context = Some (Ctx None)\<rparr>, ch = ChanClosed, closed = True,
           closeCh = ChanClosed, err = Some (CmdkitErrorP \<lparr>Message = ''gone'', Code = 3\<rparr>),
           waitLen = ChanClosed, length_u64 = 0\<rparr>,
         emitter = NoEmit, receiver = NoNext\<rparr>
        [CallNext, NextChClosed]
     = Some ([NextRet NilV (Some (CmdkitErrorP \<lparr>Message = ''gone'', Code = 3\<rparr>)) :: nat event],
        \<lparr>stream = \<lparr>req = \<lparr>Context = Some (Ctx None)\<rparr>, ch = ChanClosed, closed = True,
           closeCh = ChanClosed, err = Some (CmdkitErrorP \<lparr>Message = ''gone'', Code = 3\<rparr>),
           waitLen = ChanClosed, length_u64 = 0\<rparr>,
         emitter = NoEmit, receiver = NoNext\<rparr>)"
    by simp
  have 3: "recorded (Some (ErrorString ''boom'')) = ErrorString ''boom''
   \<and> run (NewSys \<lparr>Context = Some (Ctx None)\<rparr> :: nat sys)
        (schedule (Some (ErrorString ''boom'')) [Val 1, Val 2])
     = Some ([NextRet (Val 1) None, EmitRet (Val 1) None, NextRet (Val 2) None,
              EmitRet (Val 2) None, CloseRet (Some (ErrorString ''boom'')) None,
              NextRet NilV (Some (ErrorString ''boom''))],
        \<lparr>stream = \<lparr>req = \<lparr>Context = Some (Ctx None)\<rparr>, ch = ChanClosed, closed = True,
           closeCh = ChanClosed, err = Some (ErrorString ''boom''), waitLen = ChanClosed,
           length_u64 = 0\<rparr>,
         emitter = NoEmit, receiver = NoNext\<rparr>)"
    using C2_terminal_error[where rq = "\<lparr>Context = Some (Ctx None)\<rparr>"
        and e = "ErrorString ''boom''" and ws = "[Val (1::nat), Val 2]", THEN conjunct2]
    by (simp add: NewChanResponsePair_def)
  have r': "run (NewSys \<lparr>Context = Some (Ctx None)\<rparr> :: nat sys)
      [CallNext, CallEmit (Val 1), SendRecv, EmitReturn,
       CallCloseWithError (Some (CmdkitErrorV \<lparr>Message = ''gone'', Code = 3\<rparr>)), CallNext]
     = Some ([NextRet (Val 1) None, EmitRet (Val 1) None,
              CloseRet (Some (CmdkitErrorV \<lparr>Message = ''gone'', Code = 3\<rparr>)) None],
        \<lparr>stream = \<lparr>req = \<lparr>Context = Some (Ctx None)\<rparr>, ch = ChanClosed, closed = True,
           closeCh = ChanClosed, err = Some (CmdkitErrorP \<lparr>Message = ''gone'', Code = 3\<rparr>), waitLen = ChanClosed, length_u64 = 0\<rparr>,
         emitter = NoEmit, receiver = Receiving\<rparr>)"
    by (simp add: run_eval)
  have h': "(NextCtxDone :: nat action) \<notin> set [CallNext, CallEmit (Val 1), SendRecv, EmitReturn,
       CallCloseWithError (Some (CmdkitErrorV \<lparr>Message = ''gone'', Code = 3\<rparr>)), CallNext]"
    by simp
  have pe': "emits_closes [NextRet (Val (1::nat)) None, EmitRet (Val 1) None,
              CloseRet (Some (CmdkitErrorV \<lparr>Message = ''gone'', Code = 3\<rparr>)) None]
      = map (\<lambda>v. EmitRet v None) [Val 1] @
          [CloseRet (Some (CmdkitErrorV \<lparr>Message = ''gone'', Code = 3\<rparr>)) None]"
    by (simp add: emits_closes_def)
  from C2_terminal_error[THEN conjunct1, rule_format, OF conjI[OF r' conjI[OF h' pe']]]
  have 0: "next_ch_closed
        \<lparr>stream = \<lparr>req = \<lparr>Context = Some (Ctx None)\<rparr>, ch = ChanClosed, closed = True,
           closeCh = ChanClosed, err = Some (CmdkitErrorP \<lparr>Message = ''gone'', Code = 3\<rparr>), waitLen = ChanClosed, length_u64 = 0\<rparr>,
         emitter = NoEmit, receiver = Receiving\<rparr>
     = Some ([NextRet NilV (Some (CmdkitErrorP \<lparr>Message = ''gone'', Code = 3\<rparr>)) :: nat event],
        \<lparr>stream = \<lparr>req = \<lparr>Context = Some (Ctx None)\<rparr>, ch = ChanClosed, closed = True,
           closeCh = ChanClosed, err = Some (CmdkitErrorP \<lparr>Message = ''gone'', Code = 3\<rparr>), waitLen = ChanClosed, length_u64 = 0\<rparr>,
         emitter = NoEmit, receiver = NoNext\<rparr>)"
    by simp
  from 0 1 2 3 show ?thesis by (elim conjE, intro conjI) assumption+
qed


subsection \<open>C3\<close>

text \<open>
  C3, as stated, fails where an \<^verbatim>\<open>Emit\<close> of a single value has closed the stream:
  the first call of \<^verbatim>\<open>Close\<close> on that stream returns the double-close error.
\<close>

theorem C3_counterexample:
  "run (NewSys \<lparr>Context = Some (Ctx None)\<rparr> :: nat sys)
      [CallNext, CallEmit (Single (Val 5)), SendRecv, EmitReturn, CallClose]
   = Some ([NextRet (Val 5) None, EmitRet (Single (Val 5)) None,
            CloseRet None (Some ErrClosingClosedEmitter)],
        \<lparr>stream = \<lparr>req = \<lparr>Context = Some (Ctx None)\<rparr>, ch = ChanClosed, closed = True,
           closeCh = ChanClosed, err = Some EOF, waitLen = ChanClosed, length_u64 = 0\<rparr>,
         emitter = NoEmit, receiver = NoNext\<rparr>)"
  by (simp add: run_eval)

text \<open>
  C3, amended. In every run of a fresh stream the first call of \<^verbatim>\<open>Close\<close> or
  \<^verbatim>\<open>CloseWithError\<close> succeeds unless an \<^verbatim>\<open>Emit\<close> of a single value has returned
  nil before (that call has closed the stream itself), and every other call returns
  \<^verbatim>\<open>ErrClosingClosedEmitter\<close>. In every state a run reaches, the flag \<^verbatim>\<open>closed\<close> is
  set exactly when the value channel is closed; a close of a closed stream returns the
  double-close error and leaves the whole state, the recorded error included, as it
  was; a close of an open stream (once it holds the mutex) returns nil, sets the flag,
  records the error, closes the value channel, which was open, and fires both
  signals, and changes nothing else. \<open>close_call e\<close> is the step of
  \<^verbatim>\<open>CloseWithError(e)\<close>, and with \<open>e = None\<close> the step of \<^verbatim>\<open>Close()\<close>.
\<close>

theorem C3_close_once:
  assumes "run (NewSys rq) tr = Some (es, sy)"
  shows "first_close_wins es \<and>
         closed (stream sy) = (ch (stream sy) = ChanClosed) \<and>
         (closed (stream sy) \<longrightarrow>
            close_call e sy = Some ([CloseRet e (Some ErrClosingClosedEmitter)], sy)) \<and>
         (\<not> closed (stream sy) \<and> emitter sy = NoEmit \<longrightarrow>
            close_call e sy = Some ([CloseRet e None],
              sy\<lparr>stream := (stream sy)\<lparr>closed := True, err := Some (recorded e),
                     ch := ChanClosed, waitLen := ChanClosed, closeCh := ChanClosed\<rparr>\<rparr>))"
proof -
  from run_first_close_wins[OF assms] have inv: "stream_inv sy" and w: "first_close_wins es"
    by simp_all
  show ?thesis
    using w inv_closed_ch[OF inv] inv_closed_idle[OF inv] close_call_closed[of sy e]
      close_call_open[of sy e]
    by auto
qed

theorem C3_witness:
  "first_close_wins
     [CloseRet (Some (ErrorString ''boom'')) None, CloseRet None (Some ErrClosingClosedEmitter) :: nat event]
   \<and> close_call (Some Canceled)
        \<lparr>stream = \<lparr>req = \<lparr>Context = None\<rparr>, ch = ChanClosed, closed = True,
           closeCh = ChanClosed, err = Some (ErrorString ''boom''), waitLen = ChanClosed,
           length_u64 = 0\<rparr>,
         emitter = NoEmit, receiver = NoNext\<rparr>
      = Some ([CloseRet (Some Canceled) (Some ErrClosingClosedEmitter) :: nat event],
        \<lparr>stream = \<lparr>req = \<lparr>Context = None\<rparr>, ch = ChanClosed, closed = True,
           closeCh = ChanClosed, err = Some (ErrorString ''boom''), waitLen = ChanClosed,
           length_u64 = 0\<rparr>,
         emitter = NoEmit, receiver = NoNext\<rparr>)
   \<and> close_call (Some (CmdkitErrorV \<lparr>Message = ''gone'', Code = 3\<rparr>)) (NewSys \<lparr>Context = None\<rparr>)
      = Some ([CloseRet (Some (CmdkitErrorV \<lparr>Message = ''gone'', Code = 3\<rparr>)) None :: nat event],
        \<lparr>stream = \<lparr>req = \<lparr>Context = None\<rparr>, ch = ChanClosed, closed = True,
           closeCh = ChanClosed, err = Some (CmdkitErrorP \<lparr>Message = ''gone'', Code = 3\<rparr>),
           waitLen = ChanClosed, length_u64 = 0\<rparr>,
         emitter = NoEmit, receiver = NoNext\<rparr>)"
proof -
  have r: "run (NewSys \<lparr>Context = None\<rparr> :: nat sys)
       [CallCloseWithError (Some (ErrorString ''boom'')), CallClose]
     = Some ([CloseRet (Some (ErrorString ''boom'')) None, CloseRet None (Some ErrClosingClosedEmitter)],
        \<lparr>stream = \<lparr>req = \<lparr>Context = None\<rparr>, ch = ChanClosed, closed = True,
           closeCh = ChanClosed, err = Some (ErrorString ''boom''), waitLen = ChanClosed,
           length_u64 = 0\<rparr>,
         emitter = NoEmit, receiver = NoNext\<rparr>)"
    by (simp add: run_eval)
  have r0: "run (NewSys \<lparr>Context = None\<rparr> :: nat sys) [] = Some ([], NewSys \<lparr>Context = None\<rparr>)"
    by simp
  show ?thesis
    using C3_close_once[OF r, of "Some Canceled"]
      C3_close_once[OF r0, of "Some (CmdkitErrorV \<lparr>Message = ''gone'', Code = 3\<rparr>)"]
    by (simp add: NewSys_def NewChanResponsePair_def)
qed

subsection \<open>C4\<close>

text \<open>
  C4. Every call of \<^verbatim>\<open>Emit\<close> made after the stream is closed, with a value that
  is neither an error nor a channel, returns \<^verbatim>\<open>ErrClosedEmitter\<close>: it shows nothing
  else (no panic, no value returned by \<^verbatim>\<open>Next\<close>) and leaves the whole state as it
  was, with no emitter waiting to send. The state is any state that a run of a fresh
  stream reaches.
\<close>

theorem C4_emit_after_close:
  assumes "run (NewSys rq) tr0 = Some (es0, sy)"
    and "closed (stream sy)"
    and "\<not> is_error v" and "\<not> is_chan v"
  shows "step (CallEmit v) sy = Some ([EmitRet v (Some ErrClosedEmitter)], sy)"
proof -
  have inv: "stream_inv sy" using assms(1) NewSys_inv by (rule run_inv)
  with assms(2) have idle: "emitter sy = NoEmit" and w: "waitLen (stream sy) = ChanClosed"
    by (auto simp: stream_inv_def Let_def split: emitter.splits)
  from assms(2-4) idle w show ?thesis
    by (simp add: Emit_def AssertNotError_def waitLen_closed_id)
qed

theorem C4_witness:
  "run (NewSys \<lparr>Context = Some (Ctx None)\<rparr> :: nat sys) [CallClose]
     = Some ([CloseRet None None],
         \<lparr>stream = \<lparr>req = \<lparr>Context = Some (Ctx None)\<rparr>, ch = ChanClosed, closed = True,
            closeCh = ChanClosed, err = Some EOF, waitLen = ChanClosed, length_u64 = 0\<rparr>,
          emitter = NoEmit, receiver = NoNext\<rparr>)
   \<and> step (CallEmit (Val (7::nat)))
         \<lparr>stream = \<lparr>req = \<lparr>Context = Some (Ctx None)\<rparr>, ch = ChanClosed, closed = True,
            closeCh = ChanClosed, err = Some EOF, waitLen = ChanClosed, length_u64 = 0\<rparr>,
          emitter = NoEmit, receiver = NoNext\<rparr>
     = Some ([EmitRet (Val 7) (Some ErrClosedEmitter)],
         \<lparr>stream = \<lparr>req = \<lparr>Context = Some (Ctx None)\<rparr>, ch = ChanClosed, closed = True,
            closeCh = ChanClosed, err = Some EOF, waitLen = ChanClosed, length_u64 = 0\<rparr>,
          emitter = NoEmit, receiver = NoNext\<rparr>)"
proof -
  have r: "run (NewSys \<lparr>Context = Some (Ctx None)\<rparr>) [CallClose]
     = Some ([CloseRet None None],
         \<lparr>stream = \<lparr>req = \<lparr>Context = Some (Ctx None)\<rparr>, ch = ChanClosed, closed = True,
            closeCh = ChanClosed, err = Some EOF, waitLen = ChanClosed, length_u64 = 0\<rparr>,
          emitter = NoEmit, receiver = NoNext\<rparr> :: nat sys)"
    by (simp add: run_eval)
  show ?thesis
    by (rule conjI, rule r, rule C4_emit_after_close[OF r]) simp_all
qed

subsection \<open>C5\<close>

text \<open>
  C5, as stated, fails in two ways. A call \<^verbatim>\<open>Emit(Single{5})\<close> that waits with no
  receiver when the context is cancelled returns the cancellation error: no value was
  delivered and the stream is not closed, so the \<^verbatim>\<open>Close()\<close> that follows succeeds.
  And after an \<^verbatim>\<open>Emit(Single{5})\<close> that was received, an \<^verbatim>\<open>Emit\<close> of a raw error
  value panics in the assertion, which comes before the closed check: it does not
  return \<^verbatim>\<open>ErrClosedEmitter\<close>.
\<close>

theorem C5_counterexample:
  "run (NewSys \<lparr>Context = Some (Ctx None)\<rparr> :: nat sys)
      [CallEmit (Single (Val 5)), CancelCtx Canceled, EmitCtxDone, CallNext, NextCtxDone, CallClose]
   = Some ([EmitRet (Single (Val 5)) (Some Canceled), NextRet NilV (Some Canceled),
            CloseRet None None],
        \<lparr>stream = \<lparr>req = \<lparr>Context = Some (Ctx (Some Canceled))\<rparr>, ch = ChanClosed,
           closed = True, closeCh = ChanClosed, err = Some EOF, waitLen = ChanClosed,
           length_u64 = 0\<rparr>,
         emitter = NoEmit, receiver = NoNext\<rparr>)
   \<and> run (NewSys \<lparr>Context = Some (Ctx None)\<rparr> :: nat sys)
      [CallNext, CallEmit (Single (Val 5)), SendRecv, EmitReturn,
       CallEmit (ErrorV (ErrorString ''old style''))]
   = Some ([NextRet (Val 5) None, EmitRet (Single (Val 5)) None,
            EmitPanic (ErrorV (ErrorString ''old style'')) AssertionFailed],
        \<lparr>stream = \<lparr>req = \<lparr>Context = Some (Ctx None)\<rparr>, ch = ChanClosed, closed = True,
           closeCh = ChanClosed, err = Some EOF, waitLen = ChanClosed, length_u64 = 0\<rparr>,
         emitter = NoEmit, receiver = NoNext\<rparr>)"
  by (simp add: run_eval)

text \<open>
  C5, amended. In every run of a fresh stream, when a call \<^verbatim>\<open>Emit(Single{x})\<close> has
  returned nil: the values that \<^verbatim>\<open>Next\<close> returned before are those of the earlier
  successful emits and then \<open>x\<close>, the wrapped value itself, once; the stream is closed
  with the end-of-stream sentinel, that is, successfully; after it no \<^verbatim>\<open>Next\<close>
  returns a value, every \<^verbatim>\<open>Emit\<close> that returns returns \<^verbatim>\<open>ErrClosedEmitter\<close>, and every
  \<^verbatim>\<open>Close\<close> and \<^verbatim>\<open>CloseWithError\<close> returns \<^verbatim>\<open>ErrClosingClosedEmitter\<close>. And these
  calls do return, in the state the run has reached: \<^verbatim>\<open>Emit\<close> of a value that is
  neither a raw error nor a channel returns \<^verbatim>\<open>ErrClosedEmitter\<close>, \<^verbatim>\<open>Close()\<close> and
  \<^verbatim>\<open>CloseWithError(e)\<close> return \<^verbatim>\<open>ErrClosingClosedEmitter\<close>, each leaving the state as
  it was, and a call of \<^verbatim>\<open>Next\<close>, a new one or the one that waits, returns
  \<^verbatim>\<open>io.EOF\<close>. In every state a run reaches
  where \<^verbatim>\<open>Emit(Single{x})\<close> waits to send and a \<^verbatim>\<open>Next\<close> waits to receive, with a
  context that is not done, the communication and the return of \<^verbatim>\<open>Emit\<close> can be
  taken: \<^verbatim>\<open>Next\<close> returns \<open>x\<close>, \<^verbatim>\<open>Emit\<close> returns nil, and the stream is closed.
\<close>

theorem C5_single:
  assumes "run (NewSys rq) tr = Some (es, sy)"
  shows "(\<forall>es1 es2. es = es1 @ EmitRet (Single x) None # es2 \<longrightarrow>
            delivered es1 = map unwrap (emitted es1) @ [x] \<and> delivered es2 = [] \<and>
            list_all after_close es2 \<and> closed (stream sy) \<and> err (stream sy) = Some EOF \<and>
            (\<not> is_error w \<and> \<not> is_chan w \<longrightarrow>
               step (CallEmit w) sy = Some ([EmitRet w (Some ErrClosedEmitter)], sy)) \<and>
            step CallClose sy = Some ([CloseRet None (Some ErrClosingClosedEmitter)], sy) \<and>
            step (CallCloseWithError e) sy =
              Some ([CloseRet e (Some ErrClosingClosedEmitter)], sy) \<and>
            (receiver sy = NoNext \<longrightarrow>
               run sy [CallNext, NextChClosed] = Some ([NextRet NilV (Some EOF)], sy)) \<and>
            (receiver sy = Receiving \<longrightarrow>
               next_ch_closed sy = Some ([NextRet NilV (Some EOF)], sy\<lparr>receiver := NoNext\<rparr>))) \<and>
         (emitter sy = Sending (Single x) \<and> receiver sy = Receiving \<and>
          Context (req (stream sy)) = Some (Ctx None) \<longrightarrow>
            run sy [SendRecv, EmitReturn] =
              Some ([NextRet x None, EmitRet (Single x) None],
                sy\<lparr>stream := (stream sy)\<lparr>closed := True, err := Some EOF, ch := ChanClosed,
                       waitLen := ChanClosed, closeCh := ChanClosed\<rparr>,
                   emitter := NoEmit, receiver := NoNext\<rparr>))"
proof -
  from run_single[OF assms] have inv: "stream_inv sy"
    and q: "\<forall>es1 es2. es = es1 @ EmitRet (Single x) None # es2 \<longrightarrow>
            delivered es1 = map unwrap (emitted es1) @ [x] \<and> delivered es2 = [] \<and>
            list_all after_close es2 \<and> closed (stream sy) \<and> err (stream sy) = Some EOF"
    by blast+
  have later: "closed (stream sy) \<and> err (stream sy) = Some EOF \<Longrightarrow>
      (\<not> is_error w \<and> \<not> is_chan w \<longrightarrow>
         step (CallEmit w) sy = Some ([EmitRet w (Some ErrClosedEmitter)], sy)) \<and>
      step CallClose sy = Some ([CloseRet None (Some ErrClosingClosedEmitter)], sy) \<and>
      step (CallCloseWithError e) sy = Some ([CloseRet e (Some ErrClosingClosedEmitter)], sy) \<and>
      (receiver sy = NoNext \<longrightarrow>
         run sy [CallNext, NextChClosed] = Some ([NextRet NilV (Some EOF)], sy)) \<and>
      (receiver sy = Receiving \<longrightarrow>
         next_ch_closed sy = Some ([NextRet NilV (Some EOF)], sy\<lparr>receiver := NoNext\<rparr>))"
  proof -
    assume c: "closed (stream sy) \<and> err (stream sy) = Some EOF"
    with inv have idle: "emitter sy = NoEmit" and w: "waitLen (stream sy) = ChanClosed"
      and cl: "ch (stream sy) = ChanClosed"
      by (auto simp: stream_inv_def Let_def split: emitter.splits)
    have 1: "\<not> is_error w \<and> \<not> is_chan w \<longrightarrow>
         step (CallEmit w) sy = Some ([EmitRet w (Some ErrClosedEmitter)], sy)"
      using c idle w by (simp add: Emit_def AssertNotError_def waitLen_closed_id)
    have 2: "step CallClose sy = Some ([CloseRet None (Some ErrClosingClosedEmitter)], sy)"
      using c idle close_call_closed[of sy None] by simp
    have 3: "step (CallCloseWithError e) sy =
        Some ([CloseRet e (Some ErrClosingClosedEmitter)], sy)"
      using c idle close_call_closed[of sy e] by simp
    have 4: "(receiver sy = NoNext \<longrightarrow>
         run sy [CallNext, NextChClosed] = Some ([NextRet NilV (Some EOF)], sy)) \<and>
      (receiver sy = Receiving \<longrightarrow>
         next_ch_closed sy = Some ([NextRet NilV (Some EOF)], sy\<lparr>receiver := NoNext\<rparr>))"
      using closed_next[OF inv] c by simp
    from 1 2 3 4 show ?thesis by blast
  qed
  have 5: "emitter sy = Sending (Single x) \<and> receiver sy = Receiving \<and>
          Context (req (stream sy)) = Some (Ctx None) \<longrightarrow>
            run sy [SendRecv, EmitReturn] =
              Some ([NextRet x None, EmitRet (Single x) None],
                sy\<lparr>stream := (stream sy)\<lparr>closed := True, err := Some EOF, ch := ChanClosed,
                       waitLen := ChanClosed, closeCh := ChanClosed\<rparr>,
                   emitter := NoEmit, receiver := NoNext\<rparr>)"
    using inv_sending_open[OF inv, of "Single x"]
    by (auto simp: send_recv_def emit_return_def closeWithError_open)
  from q later have "\<forall>es1 es2. es = es1 @ EmitRet (Single x) None # es2 \<longrightarrow>
            delivered es1 = map unwrap (emitted es1) @ [x] \<and> delivered es2 = [] \<and>
            list_all after_close es2 \<and> closed (stream sy) \<and> err (stream sy) = Some EOF \<and>
            (\<not> is_error w \<and> \<not> is_chan w \<longrightarrow>
               step (CallEmit w) sy = Some ([EmitRet w (Some ErrClosedEmitter)], sy)) \<and>
            step CallClose sy = Some ([CloseRet None (Some ErrClosingClosedEmitter)], sy) \<and>
            step (CallCloseWithError e) sy =
              Some ([CloseRet e (Some ErrClosingClosedEmitter)], sy) \<and>
            (receiver sy = NoNext \<longrightarrow>
               run sy [CallNext, NextChClosed] = Some ([NextRet NilV (Some EOF)], sy)) \<and>
            (receiver sy = Receiving \<longrightarrow>
               next_ch_closed sy = Some ([NextRet NilV (Some EOF)], sy\<lparr>receiver := NoNext\<rparr>))"
    by blast
  with 5 show ?thesis by (rule conjI[rotated])
qed

theorem C5_witness:
  "next_ch_closed
        \<lparr>stream = \<lparr>req = \<lparr>Context = Some (Ctx None)\<rparr>, ch = ChanClosed, closed = True,
           closeCh = ChanClosed, err = Some EOF, waitLen = ChanClosed, length_u64 = 0\<rparr>,
         emitter = NoEmit, receiver = Receiving\<rparr>
     = Some ([NextRet NilV (Some EOF) :: nat event],
        \<lparr>stream = \<lparr>req = \<lparr>Context = Some (Ctx None)\<rparr>, ch = ChanClosed, closed = True,
           closeCh = ChanClosed, err = Some EOF, waitLen = ChanClosed, length_u64 = 0\<rparr>,
         emitter = NoEmit, receiver = NoNext\<rparr>)
   \<and> delivered [NextRet (Val (5::nat)) None] = map unwrap (emitted [NextRet (Val 5) None]) @ [Val 5]
   \<and> delivered [EmitRet (Val (6::nat)) (Some ErrClosedEmitter),
        CloseRet None (Some ErrClosingClosedEmitter), NextRet NilV (Some EOF)] = []
   \<and> list_all after_close [EmitRet (Val (6::nat)) (Some ErrClosedEmitter),
        CloseRet None (Some ErrClosingClosedEmitter), NextRet NilV (Some EOF)]
   \<and> step (CallEmit (Val (7::nat)))
     \<lparr>stream = \<lparr>req = \<lparr>Context = Some (Ctx None)\<rparr>, ch = ChanClosed, closed = True,
        closeCh = ChanClosed, err = Some EOF, waitLen = ChanClosed, length_u64 = 0\<rparr>,
      emitter = NoEmit, receiver = NoNext\<rparr>
     = Some ([EmitRet (Val 7) (Some ErrClosedEmitter)],
     \<lparr>stream = \<lparr>req = \<lparr>Context = Some (Ctx None)\<rparr>, ch = ChanClosed, closed = True,
        closeCh = ChanClosed, err = Some EOF, waitLen = ChanClosed, length_u64 = 0\<rparr>,
      emitter = NoEmit, receiver = NoNext\<rparr>)
   \<and> step CallClose
     \<lparr>stream = \<lparr>req = \<lparr>Context = Some (Ctx None)\<rparr>, ch = ChanClosed, closed = True,
        closeCh = ChanClosed, err = Some EOF, waitLen = ChanClosed, length_u64 = 0\<rparr>,
      emitter = NoEmit, receiver = NoNext\<rparr>
     = Some ([CloseRet None (Some ErrClosingClosedEmitter) :: nat event],
     \<lparr>stream = \<lparr>req = \<lparr>Context = Some (Ctx None)\<rparr>, ch = ChanClosed, closed = True,
        closeCh = ChanClosed, err = Some EOF, waitLen = ChanClosed, length_u64 = 0\<rparr>,
      emitter = NoEmit, receiver = NoNext\<rparr>)
   \<and> step (CallCloseWithError (Some (ErrorString ''boom'')))
     \<lparr>stream = \<lparr>req = \<lparr>Context = Some (Ctx None)\<rparr>, ch = ChanClosed, closed = True,
        closeCh = ChanClosed, err = Some EOF, waitLen = ChanClosed, length_u64 = 0\<rparr>,
      emitter = NoEmit, receiver = NoNext\<rparr>
     = Some ([CloseRet (Some (ErrorString ''boom'')) (Some ErrClosingClosedEmitter) :: nat event],
     \<lparr>stream = \<lparr>req = \<lparr>Context = Some (Ctx None)\<rparr>, ch = ChanClosed, closed = True,
        closeCh = ChanClosed, err = Some EOF, waitLen = ChanClosed, length_u64 = 0\<rparr>,
      emitter = NoEmit, receiver = NoNext\<rparr>)
   \<and> run
     \<lparr>stream = \<lparr>req = \<lparr>Context = Some (Ctx None)\<rparr>, ch = ChanClosed, closed = True,
        closeCh = ChanClosed, err = Some EOF, waitLen = ChanClosed, length_u64 = 0\<rparr>,
      emitter = NoEmit, receiver = NoNext\<rparr>
     [CallNext, NextChClosed]
     = Some ([NextRet NilV (Some EOF) :: nat event],
     \<lparr>stream = \<lparr>req = \<lparr>Context = Some (Ctx None)\<rparr>, ch = ChanClosed, closed = True,
        closeCh = ChanClosed, err = Some EOF, waitLen = ChanClosed, length_u64 = 0\<rparr>,
      emitter = NoEmit, receiver = NoNext\<rparr>)
   \<and> run
     \<lparr>stream = \<lparr>req = \<lparr>Context = Some (Ctx None)\<rparr>, ch = ChanOpen, closed = False,
        closeCh = ChanOpen, err = None, waitLen = ChanClosed, length_u64 = 0\<rparr>,
      emitter = Sending (Single (Val (5::nat))), receiver = Receiving\<rparr>
     [SendRecv, EmitReturn]
     = Some ([NextRet (Val 5) None, EmitRet (Single (Val 5)) None],
     \<lparr>stream = \<lparr>req = \<lparr>Context = Some (Ctx None)\<rparr>, ch = ChanClosed, closed = True,
        closeCh = ChanClosed, err = Some EOF, waitLen = ChanClosed, length_u64 = 0\<rparr>,
      emitter = NoEmit, receiver = NoNext\<rparr>)"
proof -
  have r1: "run (NewSys \<lparr>Context = Some (Ctx None)\<rparr> :: nat sys)
      [CallNext, CallEmit (Single (Val 5)), SendRecv, EmitReturn, CallEmit (Val 6), CallClose,
       CallNext, NextChClosed]
     = Some ([NextRet (Val 5) None] @ EmitRet (Single (Val 5)) None #
         [EmitRet (Val 6) (Some ErrClosedEmitter), CloseRet None (Some ErrClosingClosedEmitter),
          NextRet NilV (Some EOF)],
     \<lparr>stream = \<lparr>req = \<lparr>Context = Some (Ctx None)\<rparr>, ch = ChanClosed, closed = True,
        closeCh = ChanClosed, err = Some EOF, waitLen = ChanClosed, length_u64 = 0\<rparr>,
      emitter = NoEmit, receiver = NoNext\<rparr>)"
    by (simp add: run_eval)
  have r2: "run (NewSys \<lparr>Context = Some (Ctx None)\<rparr> :: nat sys)
      [CallNext, CallEmit (Single (Val 5))]
     = Some ([],
     \<lparr>stream = \<lparr>req = \<lparr>Context = Some (Ctx None)\<rparr>, ch = ChanOpen, closed = False,
        closeCh = ChanOpen, err = None, waitLen = ChanClosed, length_u64 = 0\<rparr>,
      emitter = Sending (Single (Val 5)), receiver = Receiving\<rparr>)"
    by (simp add: run_eval)
  from C5_single[OF r1, of "Val 5" "Val 7" "Some (ErrorString ''boom'')", THEN conjunct1,
      rule_format, OF refl]
  have a: "delivered [NextRet (Val (5::nat)) None] = map unwrap (emitted [NextRet (Val 5) None]) @ [Val 5]
   \<and> delivered [EmitRet (Val (6::nat)) (Some ErrClosedEmitter),
        CloseRet None (Some ErrClosingClosedEmitter), NextRet NilV (Some EOF)] = []
   \<and> list_all after_close [EmitRet (Val (6::nat)) (Some ErrClosedEmitter),
        CloseRet None (Some ErrClosingClosedEmitter), NextRet NilV (Some EOF)]"
    and b: "step (CallEmit (Val (7::nat)))
     \<lparr>stream = \<lparr>req = \<lparr>Context = Some (Ctx None)\<rparr>, ch = ChanClosed, closed = True,
        closeCh = ChanClosed, err = Some EOF, waitLen = ChanClosed, length_u64 = 0\<rparr>,
      emitter = NoEmit, receiver = NoNext\<rparr>
     = Some ([EmitRet (Val 7) (Some ErrClosedEmitter)],
     \<lparr>stream = \<lparr>req = \<lparr>Context = Some (Ctx None)\<rparr>, ch = ChanClosed, closed = True,
        closeCh = ChanClosed, err = Some EOF, waitLen = ChanClosed, length_u64 = 0\<rparr>,
      emitter = NoEmit, receiver = NoNext\<rparr>)"
    and c: "step CallClose
     \<lparr>stream = \<lparr>req = \<lparr>Context = Some (Ctx None)\<rparr>, ch = ChanClosed, closed = True,
        closeCh = ChanClosed, err = Some EOF, waitLen = ChanClosed, length_u64 = 0\<rparr>,
      emitter = NoEmit, receiver = NoNext\<rparr>
     = Some ([CloseRet None (Some ErrClosingClosedEmitter) :: nat event],
     \<lparr>stream = \<lparr>req = \<lparr>Context = Some (Ctx None)\<rparr>, ch = ChanClosed, closed = True,
        closeCh = ChanClosed, err = Some EOF, waitLen = ChanClosed, length_u64 = 0\<rparr>,
      emitter = NoEmit, receiver = NoNext\<rparr>)"
    and d: "step (CallCloseWithError (Some (ErrorString ''boom'')))
     \<lparr>stream = \<lparr>req = \<lparr>Context = Some (Ctx None)\<rparr>, ch = ChanClosed, closed = True,
        closeCh = ChanClosed, err = Some EOF, waitLen = ChanClosed, length_u64 = 0\<rparr>,
      emitter = NoEmit, receiver = NoNext\<rparr>
     = Some ([CloseRet (Some (ErrorString ''boom'')) (Some ErrClosingClosedEmitter) :: nat event],
     \<lparr>stream = \<lparr>req = \<lparr>Context = Some (Ctx None)\<rparr>, ch = ChanClosed, closed = True,
        closeCh = ChanClosed, err = Some EOF, waitLen = ChanClosed, length_u64 = 0\<rparr>,
      emitter = NoEmit, receiver = NoNext\<rparr>)"
    and e: "run
     \<lparr>stream = \<lparr>req = \<lparr>Context = Some (Ctx None)\<rparr>, ch = ChanClosed, closed = True,
        closeCh = ChanClosed, err = Some EOF, waitLen = ChanClosed, length_u64 = 0\<rparr>,
      emitter = NoEmit, receiver = NoNext\<rparr>
     [CallNext, NextChClosed]
     = Some ([NextRet NilV (Some EOF) :: nat event],
     \<lparr>stream = \<lparr>req = \<lparr>Context = Some (Ctx None)\<rparr>, ch = ChanClosed, closed = True,
        closeCh = ChanClosed, err = Some EOF, waitLen = ChanClosed, length_u64 = 0\<rparr>,
      emitter = NoEmit, receiver = NoNext\<rparr>)"
    by simp_all
  from C5_single[OF r2, of "Val 5", THEN conjunct2]
  have f: "run
     \<lparr>stream = \<lparr>req = \<lparr>Context = Some (Ctx None)\<rparr>, ch = ChanOpen, closed = False,
        closeCh = ChanOpen, err = None, waitLen = ChanClosed, length_u64 = 0\<rparr>,
      emitter = Sending (Single (Val (5::nat))), receiver = Receiving\<rparr>
     [SendRecv, EmitReturn]
     = Some ([NextRet (Val 5) None, EmitRet (Single (Val 5)) None],
     \<lparr>stream = \<lparr>req = \<lparr>Context = Some (Ctx None)\<rparr>, ch = ChanClosed, closed = True,
        closeCh = ChanClosed, err = Some EOF, waitLen = ChanClosed, length_u64 = 0\<rparr>,
      emitter = NoEmit, receiver = NoNext\<rparr>)"
    by simp
  have r3: "run (NewSys \<lparr>Context = Some (Ctx None)\<rparr> :: nat sys)
      [CallNext, CallEmit (Single (Val 5)), SendRecv, EmitReturn, CallNext]
     = Some ([NextRet (Val 5) None] @ EmitRet (Single (Val 5)) None # [],
        \<lparr>stream = \<lparr>req = \<lparr>Context = Some (Ctx None)\<rparr>, ch = ChanClosed, closed = True,
           closeCh = ChanClosed, err = Some EOF, waitLen = ChanClosed, length_u64 = 0\<rparr>,
         emitter = NoEmit, receiver = Receiving\<rparr>)"
    by (simp add: run_eval)
  from C5_single[OF r3, of "Val 5" "Val 7" None, THEN conjunct1, rule_format, OF refl]
  have g: "next_ch_closed
        \<lparr>stream = \<lparr>req = \<lparr>Context = Some (Ctx None)\<rparr>, ch = ChanClosed, closed = True,
           closeCh = ChanClosed, err = Some EOF, waitLen = ChanClosed, length_u64 = 0\<rparr>,
         emitter = NoEmit, receiver = Receiving\<rparr>
     = Some ([NextRet NilV (Some EOF) :: nat event],
        \<lparr>stream = \<lparr>req = \<lparr>Context = Some (Ctx None)\<rparr>, ch = ChanClosed, closed = True,
           closeCh = ChanClosed, err = Some EOF, waitLen = ChanClosed, length_u64 = 0\<rparr>,
         emitter = NoEmit, receiver = NoNext\<rparr>)"
    by simp
  from g a b c d e f show ?thesis by (elim conjE, intro conjI) assumption+
qed

subsection \<open>C6\<close>

text \<open>
  C6. \<^verbatim>\<open>SetLength(n)\<close> called before any \<^verbatim>\<open>Emit\<close>, \<^verbatim>\<open>Close\<close> or
  \<^verbatim>\<open>CloseWithError\<close> records \<open>n\<close>. While the first-activity signal \<^verbatim>\<open>waitLen\<close> has not
  fired, \<^verbatim>\<open>Length()\<close> waits, and no call of it has returned. Once the signal has
  fired, \<^verbatim>\<open>Length()\<close> returns the stored length, \<^verbatim>\<open>SetLength\<close> changes nothing (and
  shows no error), and whatever the run does next the signal stays fired, the stored
  length stays what it was, and every \<^verbatim>\<open>Length()\<close> returns it. Every length that a
  call of \<^verbatim>\<open>Length()\<close> returned in the run is the stored one, and it is zero when
  \<^verbatim>\<open>SetLength\<close> was never called.
\<close>

theorem C6_length:
  assumes "run (NewSys rq) tr = Some (es, sy)"
  shows "(list_all (\<lambda>a. \<not> is_emit_or_close a) tr \<longrightarrow>
            set_length_call n sy =
              Some ([SetLengthRet n], sy\<lparr>stream := (stream sy)\<lparr>length_u64 := n\<rparr>\<rparr>)) \<and>
         (waitLen (stream sy) = ChanOpen \<longrightarrow> length_call sy = None \<and> lengths es = []) \<and>
         (waitLen (stream sy) = ChanClosed \<longrightarrow>
            length_call sy = Some ([LengthRet (length_u64 (stream sy))], sy) \<and>
            (emitter sy = NoEmit \<longrightarrow> set_length_call n sy = Some ([SetLengthRet n], sy)) \<and>
            (\<forall>tr' es' sy'. run sy tr' = Some (es', sy') \<longrightarrow>
               waitLen (stream sy') = ChanClosed \<and>
               length_u64 (stream sy') = length_u64 (stream sy) \<and>
               list_all (\<lambda>l. l = length_u64 (stream sy)) (lengths es'))) \<and>
         list_all (\<lambda>l. l = length_u64 (stream sy)) (lengths es) \<and>
         (list_all (\<lambda>a. \<not> is_set_length a) tr \<longrightarrow> length_u64 (stream sy) = 0)"
proof -
  have "list_all (\<lambda>a. \<not> is_emit_or_close a) tr \<longrightarrow>
          set_length_call n sy =
            Some ([SetLengthRet n], sy\<lparr>stream := (stream sy)\<lparr>length_u64 := n\<rparr>\<rparr>)"
    using run_before_activity[OF assms] by (auto simp: set_length_call_def SetLength_def)
  moreover have "waitLen (stream sy) = ChanOpen \<longrightarrow> length_call sy = None \<and> lengths es = []"
    using run_lengths[OF assms] by (auto simp: length_call_def Length_def)
  moreover have "waitLen (stream sy) = ChanClosed \<longrightarrow>
            length_call sy = Some ([LengthRet (length_u64 (stream sy))], sy) \<and>
            (emitter sy = NoEmit \<longrightarrow> set_length_call n sy = Some ([SetLengthRet n], sy))"
    by (auto simp: length_call_def Length_def set_length_call_def SetLength_def)
  moreover have "waitLen (stream sy) = ChanClosed \<longrightarrow>
            (\<forall>tr' es' sy'. run sy tr' = Some (es', sy') \<longrightarrow>
               waitLen (stream sy') = ChanClosed \<and>
               length_u64 (stream sy') = length_u64 (stream sy) \<and>
               list_all (\<lambda>l. l = length_u64 (stream sy)) (lengths es'))"
    using run_frozen[of sy] by blast
  moreover have "list_all (\<lambda>l. l = length_u64 (stream sy)) (lengths es)"
    using run_lengths[OF assms] by simp
  moreover have "list_all (\<lambda>a. \<not> is_set_length a) tr \<longrightarrow> length_u64 (stream sy) = 0"
    using run_never_set[OF assms] by simp
  ultimately show ?thesis by blast
qed

theorem C6_witness:
  "set_length_call 5
     \<lparr>stream = \<lparr>req = \<lparr>Context = None\<rparr>, ch = ChanOpen, closed = False, closeCh = ChanOpen,
        err = None, waitLen = ChanOpen, length_u64 = 3\<rparr>, emitter = NoEmit, receiver = NoNext\<rparr>
     = Some ([SetLengthRet 5 :: nat event],
     \<lparr>stream = \<lparr>req = \<lparr>Context = None\<rparr>, ch = ChanOpen, closed = False, closeCh = ChanOpen,
        err = None, waitLen = ChanOpen, length_u64 = 5\<rparr>, emitter = NoEmit, receiver = NoNext\<rparr>)
   \<and> length_call
     \<lparr>stream = \<lparr>req = \<lparr>Context = None\<rparr>, ch = ChanOpen, closed = False, closeCh = ChanOpen,
        err = None, waitLen = ChanOpen, length_u64 = 3\<rparr>, emitter = NoEmit, receiver = NoNext\<rparr>
     = (None :: (nat event list \<times> nat sys) option)
   \<and> length_call
     \<lparr>stream = \<lparr>req = \<lparr>Context = None\<rparr>, ch = ChanClosed, closed = True, closeCh = ChanClosed,
        err = Some EOF, waitLen = ChanClosed, length_u64 = 3\<rparr>, emitter = NoEmit, receiver = NoNext\<rparr>
     = Some ([LengthRet 3 :: nat event],
     \<lparr>stream = \<lparr>req = \<lparr>Context = None\<rparr>, ch = ChanClosed, closed = True, closeCh = ChanClosed,
        err = Some EOF, waitLen = ChanClosed, length_u64 = 3\<rparr>, emitter = NoEmit, receiver = NoNext\<rparr>)
   \<and> set_length_call 9
     \<lparr>stream = \<lparr>req = \<lparr>Context = None\<rparr>, ch = ChanClosed, closed = True, closeCh = ChanClosed,
        err = Some EOF, waitLen = ChanClosed, length_u64 = 3\<rparr>, emitter = NoEmit, receiver = NoNext\<rparr>
     = Some ([SetLengthRet 9 :: nat event],
     \<lparr>stream = \<lparr>req = \<lparr>Context = None\<rparr>, ch = ChanClosed, closed = True, closeCh = ChanClosed,
        err = Some EOF, waitLen = ChanClosed, length_u64 = 3\<rparr>, emitter = NoEmit, receiver = NoNext\<rparr>)
   \<and> length_u64 (stream (NewSys \<lparr>Context = None\<rparr> :: nat sys)) = 0"
proof -
  have r1: "run (NewSys \<lparr>Context = None\<rparr> :: nat sys) [CallSetLength 3]
     = Some ([SetLengthRet 3],
     \<lparr>stream = \<lparr>req = \<lparr>Context = None\<rparr>, ch = ChanOpen, closed = False, closeCh = ChanOpen,
        err = None, waitLen = ChanOpen, length_u64 = 3\<rparr>, emitter = NoEmit, receiver = NoNext\<rparr>)"
    by (simp add: run_eval)
  have r2: "run (NewSys \<lparr>Context = None\<rparr> :: nat sys) [CallSetLength 3, CallClose]
     = Some ([SetLengthRet 3, CloseRet None None],
     \<lparr>stream = \<lparr>req = \<lparr>Context = None\<rparr>, ch = ChanClosed, closed = True, closeCh = ChanClosed,
        err = Some EOF, waitLen = ChanClosed, length_u64 = 3\<rparr>, emitter = NoEmit, receiver = NoNext\<rparr>)"
    by (simp add: run_eval)
  have r0: "run (NewSys \<lparr>Context = None\<rparr> :: nat sys) [] = Some ([], NewSys \<lparr>Context = None\<rparr>)"
    by simp
  show ?thesis
    using C6_length[OF r1, of 5] C6_length[OF r2, of 9] C6_length[OF r0, of 0]
    by simp
qed

subsection \<open>C7\<close>

text \<open>
  C7. \<^verbatim>\<open>Error()\<close> never waits: its step can be taken in every state, whoever holds the
  mutex and whoever waits. It returns nil while the stream has not closed, and nil when
  no close with an error succeeded (an \<^verbatim>\<open>Emit\<close> of a single value closed the stream
  with the end-of-stream sentinel). After the close \<^verbatim>\<open>CloseWithError(e)\<close> that succeeded
  it returns \<open>structured e\<close>: nil for nil and for \<^verbatim>\<open>io.EOF\<close>, the structured error
  itself (message and code) whether it was passed by value or by pointer, and an
  unstructured error as its message with the zero code.
\<close>

theorem C7_error:
  assumes "run (NewSys rq) tr = Some (es, sy)"
  shows "error_call sy = Some ([ErrorRet (Error (stream sy))], sy) \<and>
         (\<not> closed (stream sy) \<longrightarrow> Error (stream sy) = None) \<and>
         (\<forall>e. CloseRet e None \<in> set es \<longrightarrow> Error (stream sy) = structured e) \<and>
         ((\<forall>e. CloseRet e None \<notin> set es) \<longrightarrow> Error (stream sy) = None)"
proof -
  from run_err_closes[OF assms] have inv: "stream_inv sy"
    and c: "closes es \<noteq> [] \<longrightarrow> closed (stream sy)"
    and s: "\<forall>e. CloseRet e None \<in> set es \<longrightarrow> err (stream sy) = Some (recorded e)"
    and n: "closed (stream sy) \<longrightarrow> err (stream sy) = Some EOF \<or> (\<exists>e. CloseRet e None \<in> set es)"
    by blast+
  from inv have cc: "closed (stream sy) = (closeCh (stream sy) = ChanClosed)"
    by (auto simp: stream_inv_def Let_def)
  have 1: "\<not> closed (stream sy) \<longrightarrow> Error (stream sy) = None"
    using cc by (simp add: Error_def)
  have 2: "\<forall>e. CloseRet e None \<in> set es \<longrightarrow> Error (stream sy) = structured e"
  proof (intro allI impI)
    fix e assume m: "CloseRet e None \<in> set es"
    then have "closes es \<noteq> []"
      by (simp add: closes_def filter_empty_conv) (rule bexI[of _ "CloseRet e None"], simp_all)
    with c cc have "closeCh (stream sy) = ChanClosed" by simp
    moreover from s m have "err (stream sy) = Some (recorded e)" by simp
    ultimately show "Error (stream sy) = structured e" by (rule Error_structured)
  qed
  have 3: "(\<forall>e. CloseRet e None \<notin> set es) \<longrightarrow> Error (stream sy) = None"
    using n 1 by (cases "closed (stream sy)") (auto simp: Error_def split: chan.splits)
  show ?thesis using 1 2 3 by (simp add: error_call_def)
qed

theorem C7_witness:
  "Error \<lparr>req = \<lparr>Context = None\<rparr>, ch = ChanClosed, closed = True, closeCh = ChanClosed,
      err = Some (CmdkitErrorP \<lparr>Message = ''gone'', Code = 3\<rparr>), waitLen = ChanClosed,
      length_u64 = 0\<rparr> = Some \<lparr>Message = ''gone'', Code = 3\<rparr>
   \<and> Error \<lparr>req = \<lparr>Context = None\<rparr>, ch = ChanClosed, closed = True, closeCh = ChanClosed,
      err = Some (ErrorString ''boom''), waitLen = ChanClosed, length_u64 = 0\<rparr>
      = Some \<lparr>Message = ''boom'', Code = 0\<rparr>
   \<and> Error \<lparr>req = \<lparr>Context = None\<rparr>, ch = ChanClosed, closed = True, closeCh = ChanClosed,
      err = Some EOF, waitLen = ChanClosed, length_u64 = 0\<rparr> = None
   \<and> Error (stream (NewSys \<lparr>Context = None\<rparr> :: nat sys)) = None"
proof -
  have r1: "run (NewSys \<lparr>Context = None\<rparr> :: nat sys)
       [CallCloseWithError (Some (CmdkitErrorV \<lparr>Message = ''gone'', Code = 3\<rparr>))]
     = Some ([CloseRet (Some (CmdkitErrorV \<lparr>Message = ''gone'', Code = 3\<rparr>)) None],
     \<lparr>stream = \<lparr>req = \<lparr>Context = None\<rparr>, ch = ChanClosed, closed = True, closeCh = ChanClosed,
        err = Some (CmdkitErrorP \<lparr>Message = ''gone'', Code = 3\<rparr>), waitLen = ChanClosed,
        length_u64 = 0\<rparr>, emitter = NoEmit, receiver = NoNext\<rparr>)"
    by (simp add: run_eval)
  have r2: "run (NewSys \<lparr>Context = None\<rparr> :: nat sys)
       [CallCloseWithError (Some (ErrorString ''boom''))]
     = Some ([CloseRet (Some (ErrorString ''boom'')) None],
     \<lparr>stream = \<lparr>req = \<lparr>Context = None\<rparr>, ch = ChanClosed, closed = True, closeCh = ChanClosed,
        err = Some (ErrorString ''boom''), waitLen = ChanClosed,
        length_u64 = 0\<rparr>, emitter = NoEmit, receiver = NoNext\<rparr>)"
    by (simp add: run_eval)
  have r3: "run (NewSys \<lparr>Context = None\<rparr> :: nat sys) [CallClose]
     = Some ([CloseRet None None],
     \<lparr>stream = \<lparr>req = \<lparr>Context = None\<rparr>, ch = ChanClosed, closed = True, closeCh = ChanClosed,
        err = Some EOF, waitLen = ChanClosed,
        length_u64 = 0\<rparr>, emitter = NoEmit, receiver = NoNext\<rparr>)"
    by (simp add: run_eval)
  have r0: "run (NewSys \<lparr>Context = None\<rparr> :: nat sys) [] = Some ([], NewSys \<lparr>Context = None\<rparr>)"
    by simp
  show ?thesis
    using C7_error[OF r1] C7_error[OF r2] C7_error[OF r3] C7_error[OF r0]
    by (simp add: NewSys_def NewChanResponsePair_def)
qed

subsection \<open>C8\<close>

text \<open>
  C8. In a state that a run reaches, with a context that is not done: a call of
  \<^verbatim>\<open>Emit\<close> that waits with no receiver is blocked (neither case of its \<^verbatim>\<open>select\<close> can
  fire). When the context is then cancelled with error \<open>c\<close>, whatever the run does
  next: no \<^verbatim>\<open>Next\<close> returns a value, so the value of the cancelled \<^verbatim>\<open>Emit\<close> is never
  delivered; and either the call still waits, the stream is as the cancellation left
  it, and its return with \<open>c\<close> can be taken and changes nothing but to free the mutex;
  or the first call of \<^verbatim>\<open>Emit\<close> that ended after the cancellation is this one, and it
  returned \<open>c\<close>. Likewise a call of \<^verbatim>\<open>Next\<close> that waits on an open stream with no
  sender is blocked; the cancellation wakes it, and whatever the run does next, either
  it still waits and its return can be taken, or it was the first \<^verbatim>\<open>Next\<close> to return,
  with the nil value and the error \<open>c\<close>. (How soon the call returns is a matter of real
  time: in the model the return is the only step the call can take, and it can be taken
  in every state before it.)
\<close>

theorem C8_cancel:
  assumes "run (NewSys rq) tr0 = Some (es0, sy)"
    and "Context (req (stream sy)) = Some (Ctx None)"
  shows "(emitter sy = Sending v \<and> receiver sy = NoNext \<longrightarrow>
            send_recv sy = None \<and> emit_ctx_done sy = None \<and>
            cancel_ctx c sy = Some ([],
               sy\<lparr>stream := (stream sy)\<lparr>req := (req (stream sy))\<lparr>Context := Some (Ctx (Some c))\<rparr>\<rparr>\<rparr>) \<and>
            (\<forall>tr es sy'.
               run (sy\<lparr>stream := (stream sy)\<lparr>req := (req (stream sy))\<lparr>Context := Some (Ctx (Some c))\<rparr>\<rparr>\<rparr>) tr
                 = Some (es, sy') \<longrightarrow>
               delivered es = [] \<and>
               (emit_ends es = [] \<and> emitter sy' = Sending v \<and>
                stream sy' = (stream sy)\<lparr>req := (req (stream sy))\<lparr>Context := Some (Ctx (Some c))\<rparr>\<rparr> \<and>
                emit_ctx_done sy' = Some ([EmitRet v (Some c)], sy'\<lparr>emitter := NoEmit\<rparr>) \<or>
                (\<exists>rest. emit_ends es = EmitRet v (Some c) # rest)))) \<and>
         (receiver sy = Receiving \<and> (\<forall>w. emitter sy \<noteq> Sending w) \<and> \<not> closed (stream sy) \<longrightarrow>
            send_recv sy = None \<and> next_ch_closed sy = None \<and> next_ctx_done sy = None \<and>
            cancel_ctx c sy = Some ([],
               sy\<lparr>stream := (stream sy)\<lparr>req := (req (stream sy))\<lparr>Context := Some (Ctx (Some c))\<rparr>\<rparr>,
                  receiver := Woken\<rparr>) \<and>
            (\<forall>tr es sy'.
               run (sy\<lparr>stream := (stream sy)\<lparr>req := (req (stream sy))\<lparr>Context := Some (Ctx (Some c))\<rparr>\<rparr>,
                       receiver := Woken\<rparr>) tr
                 = Some (es, sy') \<longrightarrow>
               delivered es = [] \<and>
               (nexts es = [] \<and> receiver sy' = Woken \<and>
                next_ctx_done sy' = Some ([NextRet NilV (Some c)], sy'\<lparr>receiver := NoNext\<rparr>) \<or>
                (\<exists>rest. nexts es = NextRet NilV (Some c) # rest))))"
proof (intro conjI impI)
  have inv: "stream_inv sy" using assms(1) NewSys_inv by (rule run_inv)
  let ?re = "(stream sy)\<lparr>req := (req (stream sy))\<lparr>Context := Some (Ctx (Some c))\<rparr>\<rparr>"
  {
    assume a: "emitter sy = Sending v \<and> receiver sy = NoNext"
    let ?syc = "sy\<lparr>stream := ?re\<rparr>"
    from a inv_sending_open[OF inv, of v] show "send_recv sy = None"
      by (auto simp: send_recv_def split: option.splits ctx.splits)
    from a assms(2) show "emit_ctx_done sy = None" by (simp add: emit_ctx_done_def)
    from a assms(2) show "cancel_ctx c sy = Some ([], ?syc)"
      by (cases "ch (stream sy)"; cases sy) (simp_all add: cancel_ctx_def)
    have i: "stream_inv ?syc" using inv by (rule cancelled_inv')
    have cc: "Context (req (stream ?syc)) = Some (Ctx (Some c))" by simp
    have e: "emitter ?syc = Sending v" using a by simp
    show "\<forall>tr es sy'. run ?syc tr = Some (es, sy') \<longrightarrow>
               delivered es = [] \<and>
               (emit_ends es = [] \<and> emitter sy' = Sending v \<and> stream sy' = ?re \<and>
                emit_ctx_done sy' = Some ([EmitRet v (Some c)], sy'\<lparr>emitter := NoEmit\<rparr>) \<or>
                (\<exists>rest. emit_ends es = EmitRet v (Some c) # rest))"
    proof (intro allI impI)
      fix tr es sy'
      assume r: "run ?syc tr = Some (es, sy')"
      from run_cancelled[OF r i cc] have d: "delivered es = []" by simp
      from run_cancelled_emit[OF r i cc e]
      have c': "Context (req (stream sy')) = Some (Ctx (Some c))"
        and w: "emit_ends es = [] \<and> emitter sy' = Sending v \<and> stream sy' = stream ?syc \<or>
          (\<exists>rest. emit_ends es = EmitRet v (Some c) # rest)"
        by simp_all
      from w have "emit_ends es = [] \<and> emitter sy' = Sending v \<and> stream sy' = ?re \<and>
                emit_ctx_done sy' = Some ([EmitRet v (Some c)], sy'\<lparr>emitter := NoEmit\<rparr>) \<or>
                (\<exists>rest. emit_ends es = EmitRet v (Some c) # rest)"
      proof
        assume x: "emit_ends es = [] \<and> emitter sy' = Sending v \<and> stream sy' = stream ?syc"
        with c' have "emit_ctx_done sy' = Some ([EmitRet v (Some c)], sy'\<lparr>emitter := NoEmit\<rparr>)"
          by (simp add: emit_ctx_done_def)
        with x show ?thesis by simp
      next
        assume "\<exists>rest. emit_ends es = EmitRet v (Some c) # rest"
        then show ?thesis by (rule disjI2)
      qed
      with d show "delivered es = [] \<and>
               (emit_ends es = [] \<and> emitter sy' = Sending v \<and> stream sy' = ?re \<and>
                emit_ctx_done sy' = Some ([EmitRet v (Some c)], sy'\<lparr>emitter := NoEmit\<rparr>) \<or>
                (\<exists>rest. emit_ends es = EmitRet v (Some c) # rest))"
        by (rule conjI)
    qed
  }
  {
    assume a: "receiver sy = Receiving \<and> (\<forall>w. emitter sy \<noteq> Sending w) \<and> \<not> closed (stream sy)"
    let ?syc = "sy\<lparr>stream := ?re, receiver := Woken\<rparr>"
    from a inv_closed_ch[OF inv] have op: "ch (stream sy) = ChanOpen" by simp
    from a show "send_recv sy = None"
      by (auto simp: send_recv_def split: emitter.splits)
    from a op show "next_ch_closed sy = None" by (simp add: next_ch_closed_def)
    from a assms(2) show "next_ctx_done sy = None"
      by (simp add: next_ctx_done_def Next_ctx_def)
    from a op assms(2) show "cancel_ctx c sy = Some ([], ?syc)"
      by (simp add: cancel_ctx_def)
    have i: "stream_inv ?syc" using inv by (rule cancelled_inv)
    have cc: "Context (req (stream ?syc)) = Some (Ctx (Some c))" by simp
    have e: "receiver ?syc = Woken" by simp
    show "\<forall>tr es sy'. run ?syc tr = Some (es, sy') \<longrightarrow>
               delivered es = [] \<and>
               (nexts es = [] \<and> receiver sy' = Woken \<and>
                next_ctx_done sy' = Some ([NextRet NilV (Some c)], sy'\<lparr>receiver := NoNext\<rparr>) \<or>
                (\<exists>rest. nexts es = NextRet NilV (Some c) # rest))"
    proof (intro allI impI)
      fix tr es sy'
      assume r: "run ?syc tr = Some (es, sy')"
      from run_cancelled[OF r i cc] have d: "delivered es = []" by simp
      from run_cancelled_next[OF r i cc e]
      have c': "Context (req (stream sy')) = Some (Ctx (Some c))"
        and w: "nexts es = [] \<and> receiver sy' = Woken \<or>
          (\<exists>rest. nexts es = NextRet NilV (Some c) # rest)"
        by simp_all
      from w have "nexts es = [] \<and> receiver sy' = Woken \<and>
                next_ctx_done sy' = Some ([NextRet NilV (Some c)], sy'\<lparr>receiver := NoNext\<rparr>) \<or>
                (\<exists>rest. nexts es = NextRet NilV (Some c) # rest)"
      proof
        assume x: "nexts es = [] \<and> receiver sy' = Woken"
        with c' have "next_ctx_done sy' = Some ([NextRet NilV (Some c)], sy'\<lparr>receiver := NoNext\<rparr>)"
          by (simp add: next_ctx_done_def Next_ctx_def)
        with x show ?thesis by simp
      next
        assume "\<exists>rest. nexts es = NextRet NilV (Some c) # rest"
        then show ?thesis by (rule disjI2)
      qed
      with d show "delivered es = [] \<and>
               (nexts es = [] \<and> receiver sy' = Woken \<and>
                next_ctx_done sy' = Some ([NextRet NilV (Some c)], sy'\<lparr>receiver := NoNext\<rparr>) \<or>
                (\<exists>rest. nexts es = NextRet NilV (Some c) # rest))"
        by (rule conjI)
    qed
  }
qed


theorem C8_witness:
  "cancel_ctx Canceled
     \<lparr>stream = \<lparr>req = \<lparr>Context = Some (Ctx None)\<rparr>, ch = ChanOpen, closed = False,
        closeCh = ChanOpen, err = None, waitLen = ChanClosed, length_u64 = 0\<rparr>,
      emitter = Sending (Val (1::nat)), receiver = NoNext\<rparr>
     = Some ([],
     \<lparr>stream = \<lparr>req = \<lparr>Context = Some (Ctx (Some Canceled))\<rparr>, ch = ChanOpen, closed = False,
        closeCh = ChanOpen, err = None, waitLen = ChanClosed, length_u64 = 0\<rparr>,
      emitter = Sending (Val 1), receiver = NoNext\<rparr>)
   \<and> delivered [NextRet NilV (Some Canceled), EmitRet (Val (1::nat)) (Some Canceled)] = []
   \<and> (\<exists>rest. emit_ends [NextRet NilV (Some Canceled), EmitRet (Val (1::nat)) (Some Canceled)]
         = EmitRet (Val 1) (Some Canceled) # rest)
   \<and> cancel_ctx DeadlineExceeded
     \<lparr>stream = \<lparr>req = \<lparr>Context = Some (Ctx None)\<rparr>, ch = ChanOpen, closed = False,
        closeCh = ChanOpen, err = None, waitLen = ChanOpen, length_u64 = 0\<rparr>,
      emitter = NoEmit, receiver = Receiving\<rparr>
     = Some ([] :: nat event list,
     \<lparr>stream = \<lparr>req = \<lparr>Context = Some (Ctx (Some DeadlineExceeded))\<rparr>, ch = ChanOpen,
        closed = False, closeCh = ChanOpen, err = None, waitLen = ChanOpen, length_u64 = 0\<rparr>,
      emitter = NoEmit, receiver = Woken\<rparr>)
   \<and> delivered [EmitRet (Val (2::nat)) (Some DeadlineExceeded), CloseRet None None,
        NextRet NilV (Some DeadlineExceeded)] = []
   \<and> (\<exists>rest. nexts [EmitRet (Val (2::nat)) (Some DeadlineExceeded), CloseRet None None,
        NextRet NilV (Some DeadlineExceeded)] = NextRet NilV (Some DeadlineExceeded) # rest)"
proof -
  have r1: "run (NewSys \<lparr>Context = Some (Ctx None)\<rparr> :: nat sys) [CallEmit (Val 1)]
     = Some ([],
     \<lparr>stream = \<lparr>req = \<lparr>Context = Some (Ctx None)\<rparr>, ch = ChanOpen, closed = False,
        closeCh = ChanOpen, err = None, waitLen = ChanClosed, length_u64 = 0\<rparr>,
      emitter = Sending (Val 1), receiver = NoNext\<rparr>)"
    by (simp add: run_eval)
  have k1: "run
     \<lparr>stream = \<lparr>req = \<lparr>Context = Some (Ctx (Some Canceled))\<rparr>, ch = ChanOpen, closed = False,
        closeCh = ChanOpen, err = None, waitLen = ChanClosed, length_u64 = 0\<rparr>,
      emitter = Sending (Val (1::nat)), receiver = NoNext\<rparr>
     [CallNext, NextCtxDone, EmitCtxDone]
     = Some ([NextRet NilV (Some Canceled), EmitRet (Val 1) (Some Canceled)],
     \<lparr>stream = \<lparr>req = \<lparr>Context = Some (Ctx (Some Canceled))\<rparr>, ch = ChanOpen, closed = False,
        closeCh = ChanOpen, err = None, waitLen = ChanClosed, length_u64 = 0\<rparr>,
      emitter = NoEmit, receiver = NoNext\<rparr>)"
    by (simp add: run_eval)
  have r2: "run (NewSys \<lparr>Context = Some (Ctx None)\<rparr> :: nat sys) [CallNext]
     = Some ([],
     \<lparr>stream = \<lparr>req = \<lparr>Context = Some (Ctx None)\<rparr>, ch = ChanOpen, closed = False,
        closeCh = ChanOpen, err = None, waitLen = ChanOpen, length_u64 = 0\<rparr>,
      emitter = NoEmit, receiver = Receiving\<rparr>)"
    by (simp add: run_eval)
  have k2: "run
     \<lparr>stream = \<lparr>req = \<lparr>Context = Some (Ctx (Some DeadlineExceeded))\<rparr>, ch = ChanOpen,
        closed = False, closeCh = ChanOpen, err = None, waitLen = ChanOpen, length_u64 = 0\<rparr>,
      emitter = NoEmit, receiver = Woken\<rparr>
     [CallEmit (Val (2::nat)), EmitCtxDone, CallClose, NextCtxDone]
     = Some ([EmitRet (Val 2) (Some DeadlineExceeded), CloseRet None None,
        NextRet NilV (Some DeadlineExceeded)],
     \<lparr>stream = \<lparr>req = \<lparr>Context = Some (Ctx (Some DeadlineExceeded))\<rparr>, ch = ChanClosed,
        closed = True, closeCh = ChanClosed, err = Some EOF, waitLen = ChanClosed, length_u64 = 0\<rparr>,
      emitter = NoEmit, receiver = NoNext\<rparr>)"
    by (simp add: run_eval)
  from C8_cancel[OF r1, of "Val 1" Canceled]
  have a: "cancel_ctx Canceled
     \<lparr>stream = \<lparr>req = \<lparr>Context = Some (Ctx None)\<rparr>, ch = ChanOpen, closed = False,
        closeCh = ChanOpen, err = None, waitLen = ChanClosed, length_u64 = 0\<rparr>,
      emitter = Sending (Val (1::nat)), receiver = NoNext\<rparr>
     = Some ([],
     \<lparr>stream = \<lparr>req = \<lparr>Context = Some (Ctx (Some Canceled))\<rparr>, ch = ChanOpen, closed = False,
        closeCh = ChanOpen, err = None, waitLen = ChanClosed, length_u64 = 0\<rparr>,
      emitter = Sending (Val 1), receiver = NoNext\<rparr>)"
    and b: "\<forall>tr es sy'. run
     \<lparr>stream = \<lparr>req = \<lparr>Context = Some (Ctx (Some Canceled))\<rparr>, ch = ChanOpen, closed = False,
        closeCh = ChanOpen, err = None, waitLen = ChanClosed, length_u64 = 0\<rparr>,
      emitter = Sending (Val (1::nat)), receiver = NoNext\<rparr> tr = Some (es, sy') \<longrightarrow>
        delivered es = [] \<and>
        (emit_ends es = [] \<and> emitter sy' = Sending (Val 1) \<and>
         stream sy' = \<lparr>req = \<lparr>Context = Some (Ctx (Some Canceled))\<rparr>, ch = ChanOpen, closed = False,
            closeCh = ChanOpen, err = None, waitLen = ChanClosed, length_u64 = 0\<rparr> \<and>
         emit_ctx_done sy' = Some ([EmitRet (Val 1) (Some Canceled)], sy'\<lparr>emitter := NoEmit\<rparr>) \<or>
         (\<exists>rest. emit_ends es = EmitRet (Val 1) (Some Canceled) # rest))"
    by simp_all
  from C8_cancel[OF r2, of NilV DeadlineExceeded]
  have c: "cancel_ctx DeadlineExceeded
     \<lparr>stream = \<lparr>req = \<lparr>Context = Some (Ctx None)\<rparr>, ch = ChanOpen, closed = False,
        closeCh = ChanOpen, err = None, waitLen = ChanOpen, length_u64 = 0\<rparr>,
      emitter = NoEmit, receiver = Receiving\<rparr>
     = Some ([] :: nat event list,
     \<lparr>stream = \<lparr>req = \<lparr>Context = Some (Ctx (Some DeadlineExceeded))\<rparr>, ch = ChanOpen,
        closed = False, closeCh = ChanOpen, err = None, waitLen = ChanOpen, length_u64 = 0\<rparr>,
      emitter = NoEmit, receiver = Woken\<rparr>)"
    and d: "\<forall>tr es sy'. run
     \<lparr>stream = \<lparr>req = \<lparr>Context = Some (Ctx (Some DeadlineExceeded))\<rparr>, ch = ChanOpen,
        closed = False, closeCh = ChanOpen, err = None, waitLen = ChanOpen, length_u64 = 0\<rparr>,
      emitter = NoEmit, receiver = Woken\<rparr> tr = Some (es :: nat event list, sy') \<longrightarrow>
        delivered es = [] \<and>
        (nexts es = [] \<and> receiver sy' = Woken \<and>
         next_ctx_done sy' = Some ([NextRet NilV (Some DeadlineExceeded)], sy'\<lparr>receiver := NoNext\<rparr>) \<or>
         (\<exists>rest. nexts es = NextRet NilV (Some DeadlineExceeded) # rest))"
    by simp_all
  from b[rule_format, OF k1] d[rule_format, OF k2] a c show ?thesis
    by simp
qed


subsection \<open>C9\<close>

text \<open>
  C9. The claim allows one panic, the assertion of \<^verbatim>\<open>Emit\<close> on a raw error value. The
  code has a second one. On a request without a context, \<^verbatim>\<open>Emit\<close> on the open stream
  evaluates \<^verbatim>\<open>ctx.Done()\<close> on the nil \<^verbatim>\<open>Context\<close> when it enters its \<^verbatim>\<open>select\<close>
  (\<^verbatim>\<open>chan.go\<close>, lines 155 to 164) and panics with a nil dereference, after it has fired
  the first-activity signal. \<^verbatim>\<open>Next\<close> guards the same field (lines 95 to 100): on the
  same request it selects on the background context, and returns the end of the stream
  after \<^verbatim>\<open>Close()\<close>. On a request that carries a context the assertion is the only
  panic of any run (\<open>run_assertion_only\<close>).
\<close>

theorem C9_nil_context:
  "run (NewSys \<lparr>Context = None\<rparr> :: nat sys) [CallEmit (Val 1)]
   = Some ([EmitPanic (Val 1) NilDereference],
        \<lparr>stream = \<lparr>req = \<lparr>Context = None\<rparr>, ch = ChanOpen, closed = False,
           closeCh = ChanOpen, err = None, waitLen = ChanClosed, length_u64 = 0\<rparr>,
         emitter = NoEmit, receiver = NoNext\<rparr>)
   \<and> run (NewSys \<lparr>Context = None\<rparr> :: nat sys) [CallNext, CallClose, NextChClosed]
   = Some ([CloseRet None None, NextRet NilV (Some EOF)],
        \<lparr>stream = \<lparr>req = \<lparr>Context = None\<rparr>, ch = ChanClosed, closed = True,
           closeCh = ChanClosed, err = Some EOF, waitLen = ChanClosed, length_u64 = 0\<rparr>,
         emitter = NoEmit, receiver = NoNext\<rparr>)"
  by (simp add: run_eval)

subsection \<open>C10\<close>

text \<open>
  C10, as stated, fails for an \<^verbatim>\<open>Emit\<close> of a raw error value: the assertion panics
  before the first-activity signal is touched, so after this attempt \<^verbatim>\<open>SetLength\<close>
  still records a length and \<^verbatim>\<open>Length()\<close> still waits.
\<close>

theorem C10_counterexample:
  "run (NewSys \<lparr>Context = Some (Ctx None)\<rparr> :: nat sys)
      [CallEmit (ErrorV (ErrorString ''old style'')), CallSetLength 7]
   = Some ([EmitPanic (ErrorV (ErrorString ''old style'')) AssertionFailed, SetLengthRet 7],
     \<lparr>stream = \<lparr>req = \<lparr>Context = Some (Ctx None)\<rparr>, ch = ChanOpen, closed = False,
        closeCh = ChanOpen, err = None, waitLen = ChanOpen, length_u64 = 7\<rparr>,
      emitter = NoEmit, receiver = NoNext\<rparr>)
   \<and> length_call
     \<lparr>stream = \<lparr>req = \<lparr>Context = Some (Ctx None)\<rparr>, ch = ChanOpen, closed = False,
        closeCh = ChanOpen, err = None, waitLen = ChanOpen, length_u64 = 7\<rparr>,
      emitter = NoEmit, receiver = NoNext\<rparr>
     = (None :: (nat event list \<times> nat sys) option)"
  by (simp add: run_eval)

text \<open>
  C10, amended. Every call of \<^verbatim>\<open>Emit\<close> that holds the mutex, with a value that is
  neither a channel (handed to \<^verbatim>\<open>EmitChan\<close> before anything else) nor a raw error
  (the assertion panics first), has fired the first-activity signal when its first
  step is done: also when it then returns \<^verbatim>\<open>ErrClosedEmitter\<close> on a closed stream,
  and when it waits and is cancelled and delivers no value. Whatever the run does
  after that, the signal stays fired and the stored length is the one before the
  call: \<^verbatim>\<open>Length()\<close> returns it, and every \<^verbatim>\<open>SetLength\<close> changes nothing.
\<close>

theorem C10_first_activity:
  assumes "step (CallEmit v) sy = Some (es1, sy1)"
    and "\<not> is_error v" and "\<not> is_chan v"
    and "run sy1 tr = Some (es2, sy2)"
  shows "waitLen (stream sy1) = ChanClosed \<and>
         (closed (stream sy) \<longrightarrow> es1 = [EmitRet v (Some ErrClosedEmitter)]) \<and>
         (\<not> closed (stream sy) \<and> Context (req (stream sy)) = Some (Ctx (Some c)) \<longrightarrow>
            es1 = [] \<and> emit_ctx_done sy1 = Some ([EmitRet v (Some c)], sy1\<lparr>emitter := NoEmit\<rparr>)) \<and>
         waitLen (stream sy2) = ChanClosed \<and>
         length_u64 (stream sy2) = length_u64 (stream sy) \<and>
         length_call sy2 = Some ([LengthRet (length_u64 (stream sy))], sy2) \<and>
         (emitter sy2 = NoEmit \<longrightarrow> set_length_call n sy2 = Some ([SetLengthRet n], sy2))"
proof -
  from assms(1) have e: "Emit v sy = Some (es1, sy1)" by simp
  from e assms(2,3) have w1: "waitLen (stream sy1) = ChanClosed"
    and l1: "length_u64 (stream sy1) = length_u64 (stream sy)"
    and c: "closed (stream sy) \<longrightarrow> es1 = [EmitRet v (Some ErrClosedEmitter)]"
    and d: "\<not> closed (stream sy) \<and> Context (req (stream sy)) = Some (Ctx (Some c)) \<longrightarrow>
            es1 = [] \<and> emit_ctx_done sy1 = Some ([EmitRet v (Some c)], sy1\<lparr>emitter := NoEmit\<rparr>)"
    by (cases rule: Emit_elim; auto simp: emit_ctx_done_def)+
  from run_frozen[OF assms(4) w1] l1
  have w2: "waitLen (stream sy2) = ChanClosed"
    and l2: "length_u64 (stream sy2) = length_u64 (stream sy)" by simp_all
  from w2 l2 have "length_call sy2 = Some ([LengthRet (length_u64 (stream sy))], sy2)"
    and "emitter sy2 = NoEmit \<longrightarrow> set_length_call n sy2 = Some ([SetLengthRet n], sy2)"
    by (auto simp: length_call_def Length_def set_length_call_def SetLength_def)
  with w1 c d w2 l2 show ?thesis by blast
qed

theorem C10_witness:
  "waitLen (stream
     \<lparr>stream = \<lparr>req = \<lparr>Context = Some (Ctx (Some Canceled))\<rparr>, ch = ChanOpen, closed = False,
        closeCh = ChanOpen, err = None, waitLen = ChanClosed, length_u64 = 0\<rparr>,
      emitter = Sending (Val (1::nat)), receiver = NoNext\<rparr>) = ChanClosed
   \<and> emit_ctx_done
     \<lparr>stream = \<lparr>req = \<lparr>Context = Some (Ctx (Some Canceled))\<rparr>, ch = ChanOpen, closed = False,
        closeCh = ChanOpen, err = None, waitLen = ChanClosed, length_u64 = 0\<rparr>,
      emitter = Sending (Val (1::nat)), receiver = NoNext\<rparr>
     = Some ([EmitRet (Val 1) (Some Canceled)],
     \<lparr>stream = \<lparr>req = \<lparr>Context = Some (Ctx (Some Canceled))\<rparr>, ch = ChanOpen, closed = False,
        closeCh = ChanOpen, err = None, waitLen = ChanClosed, length_u64 = 0\<rparr>,
      emitter = NoEmit, receiver = NoNext\<rparr>)
   \<and> length_call
     \<lparr>stream = \<lparr>req = \<lparr>Context = Some (Ctx (Some Canceled))\<rparr>, ch = ChanOpen, closed = False,
        closeCh = ChanOpen, err = None, waitLen = ChanClosed, length_u64 = 0\<rparr>,
      emitter = NoEmit, receiver = NoNext\<rparr>
     = Some ([LengthRet 0 :: nat event],
     \<lparr>stream = \<lparr>req = \<lparr>Context = Some (Ctx (Some Canceled))\<rparr>, ch = ChanOpen, closed = False,
        closeCh = ChanOpen, err = None, waitLen = ChanClosed, length_u64 = 0\<rparr>,
      emitter = NoEmit, receiver = NoNext\<rparr>)
   \<and> set_length_call 4
     \<lparr>stream = \<lparr>req = \<lparr>Context = Some (Ctx (Some Canceled))\<rparr>, ch = ChanOpen, closed = False,
        closeCh = ChanOpen, err = None, waitLen = ChanClosed, length_u64 = 0\<rparr>,
      emitter = NoEmit, receiver = NoNext\<rparr>
     = Some ([SetLengthRet 4 :: nat event],
     \<lparr>stream = \<lparr>req = \<lparr>Context = Some (Ctx (Some Canceled))\<rparr>, ch = ChanOpen, closed = False,
        closeCh = ChanOpen, err = None, waitLen = ChanClosed, length_u64 = 0\<rparr>,
      emitter = NoEmit, receiver = NoNext\<rparr>)"
proof -
  have s: "step (CallEmit (Val (1::nat)))
     \<lparr>stream = \<lparr>req = \<lparr>Context = Some (Ctx (Some Canceled))\<rparr>, ch = ChanOpen, closed = False,
        closeCh = ChanOpen, err = None, waitLen = ChanOpen, length_u64 = 0\<rparr>,
      emitter = NoEmit, receiver = NoNext\<rparr>
     = Some ([],
     \<lparr>stream = \<lparr>req = \<lparr>Context = Some (Ctx (Some Canceled))\<rparr>, ch = ChanOpen, closed = False,
        closeCh = ChanOpen, err = None, waitLen = ChanClosed, length_u64 = 0\<rparr>,
      emitter = Sending (Val 1), receiver = NoNext\<rparr>)"
    by (simp add: run_eval)
  have r: "run
     \<lparr>stream = \<lparr>req = \<lparr>Context = Some (Ctx (Some Canceled))\<rparr>, ch = ChanOpen, closed = False,
        closeCh = ChanOpen, err = None, waitLen = ChanClosed, length_u64 = 0\<rparr>,
      emitter = Sending (Val (1::nat)), receiver = NoNext\<rparr>
     [EmitCtxDone, CallSetLength 4]
     = Some ([EmitRet (Val 1) (Some Canceled), SetLengthRet 4],
     \<lparr>stream = \<lparr>req = \<lparr>Context = Some (Ctx (Some Canceled))\<rparr>, ch = ChanOpen, closed = False,
        closeCh = ChanOpen, err = None, waitLen = ChanClosed, length_u64 = 0\<rparr>,
      emitter = NoEmit, receiver = NoNext\<rparr>)"
    by (simp add: run_eval)
  show ?thesis
    using C10_first_activity[OF s _ _ r, of Canceled 4] by simp
qed

end
